theory Spec2Isabelle
  imports Main
begin

section \<open>Constants of jewish/date.py\<close>

text \<open>Python integers are unbounded, so every number is an \<open>int\<close>. Python's \<open>//\<close> and
  \<open>%\<close> round towards minus infinity, as \<open>div\<close> and \<open>mod\<close> on \<open>int\<close> do.\<close>

definition HALAKIM_PER_HOUR :: int where
  "HALAKIM_PER_HOUR = 1080"

definition HALAKIM_PER_DAY :: int where
  "HALAKIM_PER_DAY = 25920"

definition HALAKIM_PER_LUNAR_CYCLE :: int where
  "HALAKIM_PER_LUNAR_CYCLE = 29 * HALAKIM_PER_DAY + 13753"

definition HALAKIM_PER_METONIC_CYCLE :: int where
  "HALAKIM_PER_METONIC_CYCLE = HALAKIM_PER_LUNAR_CYCLE * (12 * 19 + 7)"

definition GREGORIAN_SDN_OFFSET :: int where
  "GREGORIAN_SDN_OFFSET = 1721425"

definition JEWISH_SDN_OFFSET :: int where
  "JEWISH_SDN_OFFSET = 347997"

definition NEW_MOON_OF_CREATION :: int where
  "NEW_MOON_OF_CREATION = 31524"

definition SUNDAY :: int where "SUNDAY = 0"
definition MONDAY :: int where "MONDAY = 1"
definition TUESDAY :: int where "TUESDAY = 2"
definition WEDNESDAY :: int where "WEDNESDAY = 3"
definition FRIDAY :: int where "FRIDAY = 5"

definition NOON :: int where
  "NOON = 18 * HALAKIM_PER_HOUR"

definition AM3_11_20 :: int where
  "AM3_11_20 = 9 * HALAKIM_PER_HOUR + 204"

definition AM9_32_43 :: int where
  "AM9_32_43 = 15 * HALAKIM_PER_HOUR + 589"

definition LEAP_YEARS :: "int set" where
  "LEAP_YEARS = {2, 5, 7, 10, 13, 16, 18}"

definition YEAR_OFFSET :: "int list" where
  "YEAR_OFFSET = [0, 12, 24, 37, 49, 61, 74, 86, 99, 111, 123, 136, 148, 160,
                  173, 185, 197, 210, 222]"

text \<open>The exceptions a call can end in. \<open>InvalidDateError\<close> is the module's own; the
  others are the interpreter's: a tuple index out of range, a variable of the enclosing
  function read before any assignment, and a dictionary key that is missing.\<close>

datatype error = InvalidDateError | IndexError | NameError | KeyError

definition months_in_metonic_year :: "int \<Rightarrow> int" where
  "months_in_metonic_year year = (if year \<in> LEAP_YEARS then 13 else 12)"

definition metonic_year :: "int \<Rightarrow> int" where
  "metonic_year year = (year - 1) mod 19"

definition is_leap_year :: "int \<Rightarrow> bool" where
  "is_leap_year year = (metonic_year year \<in> LEAP_YEARS)"

section \<open>The class \_Molad\<close>

text \<open>A molad is a day count and a count of halakim. The methods mutate the object and
  return it; here each takes the molad and returns the new one.\<close>

record Molad =
  molad_day :: int
  halakim :: int

definition Molad_fix :: "Molad \<Rightarrow> Molad" where
  "Molad_fix m = \<lparr>molad_day = molad_day m + halakim m div HALAKIM_PER_DAY,
            halakim = halakim m mod HALAKIM_PER_DAY\<rparr>"

definition Molad_init :: "int \<Rightarrow> int \<Rightarrow> Molad" where
  "Molad_init d h = Molad_fix \<lparr>molad_day = d, halakim = h\<rparr>"

definition add_halakim :: "int \<Rightarrow> Molad \<Rightarrow> Molad" where
  "add_halakim h m = Molad_fix (m\<lparr>halakim := halakim m + h\<rparr>)"

definition add_lunar_cycles :: "int \<Rightarrow> Molad \<Rightarrow> Molad" where
  "add_lunar_cycles lunarCycles m = add_halakim (HALAKIM_PER_LUNAR_CYCLE * lunarCycles) m"

definition add_metonic_cycles :: "int \<Rightarrow> Molad \<Rightarrow> Molad" where
  "add_metonic_cycles metonicCycles m =
     add_halakim (HALAKIM_PER_METONIC_CYCLE * metonicCycles) m"

definition day_of_week :: "Molad \<Rightarrow> int" where
  "day_of_week m = molad_day m mod 7"

text \<open>The moment a molad stands for, in halakim.\<close>

definition total_halakim :: "Molad \<Rightarrow> int" where
  "total_halakim m = molad_day m * HALAKIM_PER_DAY + halakim m"

section \<open>The year-start rules\<close>

definition get_first_day_of_year :: "int \<Rightarrow> Molad \<Rightarrow> int" where
  "get_first_day_of_year metonicCycleYear molad =
     (let tishrei1 = molad_day molad;
          dow = day_of_week molad;
          lastWasLeapYear = ((metonicCycleYear - 1) mod 19 \<in> LEAP_YEARS);
          delayed = (halakim molad \<ge> NOON
                     \<or> (metonicCycleYear \<notin> LEAP_YEARS \<and> dow = TUESDAY
                          \<and> halakim molad \<ge> AM3_11_20)
                     \<or> (lastWasLeapYear \<and> dow = MONDAY \<and> halakim molad \<ge> AM9_32_43));
          tishrei1 = (if delayed then tishrei1 + 1 else tishrei1);
          dow = (if delayed then (dow + 1) mod 7 else dow)
      in if dow \<in> {WEDNESDAY, FRIDAY, SUNDAY} then tishrei1 + 1 else tishrei1)"

definition molad_of_metonic_cycle :: "int \<Rightarrow> Molad" where
  "molad_of_metonic_cycle metonicCycle =
     add_metonic_cycles metonicCycle (Molad_init 0 NEW_MOON_OF_CREATION)"

text \<open>\<open>divmod(year - 1, 19)\<close> gives an index between 0 and 18, so the lookup in the
  19-entry table is always in range.\<close>

definition find_start_of_year :: "int \<Rightarrow> int \<times> int \<times> Molad \<times> int" where
  "find_start_of_year year =
     (let metonicCycle = (year - 1) div 19;
          metonicYear = (year - 1) mod 19;
          molad = molad_of_metonic_cycle metonicCycle;
          molad = add_lunar_cycles (YEAR_OFFSET ! nat metonicYear) molad;
          tishrei1 = get_first_day_of_year metonicYear molad
      in (metonicCycle, metonicYear, molad, tishrei1))"

section \<open>Searching for the molad of Tishrei near a day\<close>

text \<open>The first loop of \<open>_find_nearby_tishrei_molad\<close>: while the molad is more than
  6630 days before the input day, go on to the next metonic cycle.\<close>

function correct_metonic_cycle :: "int \<Rightarrow> int \<Rightarrow> Molad \<Rightarrow> int \<times> Molad" where
  "correct_metonic_cycle inputDay metonicCycle molad =
     (if molad_day molad < inputDay - 6940 + 310
      then correct_metonic_cycle inputDay (metonicCycle + 1) (add_metonic_cycles 1 molad)
      else (metonicCycle, molad))"
  by pat_completeness auto
termination
proof (relation "measures [\<lambda>(d, c, m). if 0 \<le> halakim m \<and> halakim m < 25920 then 0 else 1,
                           \<lambda>(d, c, m). nat (d - 6630 - molad_day m)]", goal_cases)
  case 1
  show ?case by simp
next
  case (2 inputDay metonicCycle molad)
  let ?m = "add_metonic_cycles 1 molad"
  have norm: "0 \<le> halakim ?m \<and> halakim ?m < 25920"
    by (simp add: add_metonic_cycles_def add_halakim_def Molad_fix_def HALAKIM_PER_DAY_def)
  have grow: "molad_day molad < molad_day ?m" if "0 \<le> halakim molad"
  proof -
    have "1 \<le> (halakim molad + 179876755) div 25920"
      using that by linarith
    then show ?thesis
      by (simp add: add_metonic_cycles_def add_halakim_def Molad_fix_def HALAKIM_PER_DAY_def
          HALAKIM_PER_METONIC_CYCLE_def HALAKIM_PER_LUNAR_CYCLE_def)
  qed
  show ?case
  proof (cases "0 \<le> halakim molad \<and> halakim molad < 25920")
    case True
    with 2 norm grow show ?thesis by auto
  next
    case False
    with norm show ?thesis by auto
  qed
qed

text \<open>The second loop: walk through the years 0..17 of the cycle and stop at the first
  molad later than 74 days before the input day.\<close>

function find_metonic_year :: "int \<Rightarrow> int \<Rightarrow> Molad \<Rightarrow> int \<times> Molad" where
  "find_metonic_year inputDay metonicYear molad =
     (if metonicYear < 18
      then (if molad_day molad > inputDay - 74 then (metonicYear, molad)
            else find_metonic_year inputDay (metonicYear + 1)
                   (add_lunar_cycles (months_in_metonic_year metonicYear) molad))
      else (metonicYear, molad))"
  by pat_completeness auto
termination
  by (relation "measure (\<lambda>(d, y, m). nat (18 - y))") auto

definition find_nearby_tishrei_molad :: "int \<Rightarrow> int \<times> int \<times> Molad" where
  "find_nearby_tishrei_molad inputDay =
     (let metonicCycle = (inputDay + 310) div 6940;
          molad = molad_of_metonic_cycle metonicCycle;
          (metonicCycle, molad) = correct_metonic_cycle inputDay metonicCycle molad;
          (metonicYear, molad) = find_metonic_year inputDay 0 molad
      in (metonicCycle, metonicYear, molad))"

section \<open>The class JewishDate\<close>

definition TISHREI :: int where "TISHREI = 1"
definition CHESHVAN :: int where "CHESHVAN = 2"
definition KISLEV :: int where "KISLEV = 3"
definition TEVET :: int where "TEVET = 4"
definition SHEVAT :: int where "SHEVAT = 5"
definition ADAR_I :: int where "ADAR_I = 6"
definition ADAR_II :: int where "ADAR_II = 7"
definition NISAN :: int where "NISAN = 8"
definition IYAR :: int where "IYAR = 9"
definition SIVAN :: int where "SIVAN = 10"
definition TAMUZ :: int where "TAMUZ = 11"
definition AV :: int where "AV = 12"
definition ELUL :: int where "ELUL = 13"

record JewishDate =
  year :: int
  month :: int
  day :: int
  isLeapYear :: bool

text \<open>The constructor sets the four fields and then raises when a field is out of
  bounds, so a caller only ever gets a date with fields in bounds.\<close>

definition JewishDate_init :: "int \<Rightarrow> int \<Rightarrow> int \<Rightarrow> error + JewishDate" where
  "JewishDate_init y m d =
     (if y \<le> 0 \<or> m < 1 \<or> m > 13 \<or> d < 1 \<or> d > 30 then Inl InvalidDateError
      else Inr \<lparr>year = y, month = m, day = d, isLeapYear = is_leap_year y\<rparr>)"

text \<open>The \<open>for\<close> loop of \<open>from_sdn\<close> over the last six months of the year. It stops at
  the first month whose offset reaches back to the input day and gives that month and
  the day in it; when no month does, \<open>day\<close> was never assigned.\<close>

fun last_six_months :: "int \<Rightarrow> int \<Rightarrow> (int \<times> int) list \<Rightarrow> (int \<times> int) option" where
  "last_six_months inputDay nextTishrei1 [] = None"
| "last_six_months inputDay nextTishrei1 ((m, offset) # rest) =
     (if inputDay > nextTishrei1 - offset then Some (m, inputDay - nextTishrei1 + offset)
      else last_six_months inputDay nextTishrei1 rest)"

text \<open>The last lines of \<open>from_sdn\<close>, which tell Cheshvan from Kislev by the length of
  the year. Two paths of the function reach them.\<close>

definition cheshvan_or_kislev :: "int \<Rightarrow> int \<Rightarrow> int \<Rightarrow> int \<Rightarrow> error + JewishDate" where
  "cheshvan_or_kislev y inputDay tishrei1 nextTishrei1 =
     (let yearLength = nextTishrei1 - tishrei1;
          d = inputDay - tishrei1 - 29;
          cheshvanLength = (if yearLength \<in> {355, 385} then 30 else 29)
      in if d \<le> cheshvanLength then JewishDate_init y CHESHVAN d
         else JewishDate_init y KISLEV (d - cheshvanLength))"

definition from_sdn :: "int \<Rightarrow> error + JewishDate" where
  "from_sdn sdn =
     (if sdn \<le> JEWISH_SDN_OFFSET then Inl InvalidDateError
      else
        let inputDay = sdn - JEWISH_SDN_OFFSET;
            (metonicCycle, metonicYear, molad) = find_nearby_tishrei_molad inputDay;
            tishrei1 = get_first_day_of_year metonicYear molad
        in
          if inputDay \<ge> tishrei1 then
            (let y = metonicCycle * 19 + metonicYear + 1 in
               if inputDay < tishrei1 + 59 then
                 (if inputDay < tishrei1 + 30
                  then JewishDate_init y TISHREI (inputDay - tishrei1 + 1)
                  else JewishDate_init y CHESHVAN (inputDay - tishrei1 - 29))
               else
                 (let molad = add_lunar_cycles (months_in_metonic_year metonicYear) molad;
                      nextTishrei1 = get_first_day_of_year ((metonicYear + 1) mod 19) molad
                  in cheshvan_or_kislev y inputDay tishrei1 nextTishrei1))
          else
            (let nextTishrei1 = tishrei1;
                 y = metonicCycle * 19 + metonicYear
             in
               if inputDay \<ge> nextTishrei1 - 177 then
                 (case last_six_months inputDay nextTishrei1
                         [(ELUL, 30), (AV, 60), (TAMUZ, 89), (SIVAN, 119), (IYAR, 148),
                          (NISAN, 178)] of
                    None \<Rightarrow> Inl NameError
                  | Some (m, d) \<Rightarrow> JewishDate_init y m d)
               else
                 (let d = inputDay - nextTishrei1 + 207 in
                    if d > 0 then JewishDate_init y ADAR_II d
                    else
                      (let d = (if is_leap_year y then d + 30 else d) in
                         if is_leap_year y \<and> d > 0 then JewishDate_init y ADAR_I d
                         else
                           (let d = d + 30 in
                              if d > 0 then JewishDate_init y SHEVAT d
                              else
                                (let d = d + 29 in
                                   if d > 0 then JewishDate_init y TEVET d
                                   else
                                     (let (metonicCycle, metonicYear, molad) =
                                            find_nearby_tishrei_molad (molad_day molad - 365);
                                          tishrei1 = get_first_day_of_year metonicYear molad
                                      in cheshvan_or_kislev y inputDay tishrei1
                                           nextTishrei1)))))))"

text \<open>The dictionary \<open>offset\<close> of \<open>to_sdn\<close>, as an association list. It has no entry for
  Kislev, and an entry for Adar I whatever the year.\<close>

definition offset_table :: "int \<Rightarrow> (int \<times> int) list" where
  "offset_table adarsLength =
     [(TISHREI, - 1), (CHESHVAN, 29), (TEVET, adarsLength + 237),
      (SHEVAT, adarsLength + 208), (ADAR_I, adarsLength + 178), (ADAR_II, 207),
      (NISAN, 178), (IYAR, 148), (SIVAN, 119), (TAMUZ, 89), (AV, 60), (ELUL, 30)]"

text \<open>\<open>to_sdn\<close> reads the fields of the object, which Python lets a caller change after
  construction, so it is a function of any record. A missing key in the first lookup is
  not caught and cannot happen, since the month is then 1 or 2; it is a branch all the
  same.\<close>

definition to_sdn :: "JewishDate \<Rightarrow> error + int" where
  "to_sdn self =
     (if year self \<le> 0 \<or> day self \<le> 0 \<or> day self > 30 then Inl InvalidDateError
      else
        let (metonicCycle, metonicYear, molad, tishrei1) = find_start_of_year (year self);
            molad = add_lunar_cycles (months_in_metonic_year metonicYear) molad;
            nextTishrei1 = get_first_day_of_year ((metonicYear + 1) mod 19) molad;
            yearLength = nextTishrei1 - tishrei1;
            adarsLength = (if isLeapYear self then 59 else 29);
            offset = map_of (offset_table adarsLength)
        in
          if month self \<in> {TISHREI, CHESHVAN} then
            (case offset (month self) of
               None \<Rightarrow> Inl KeyError
             | Some off \<Rightarrow> Inr (tishrei1 + day self + off + JEWISH_SDN_OFFSET))
          else if month self = KISLEV then
            (if yearLength \<in> {355, 385}
             then Inr (tishrei1 + day self + 59 + JEWISH_SDN_OFFSET)
             else Inr (tishrei1 + day self + 58 + JEWISH_SDN_OFFSET))
          else
            (case offset (month self) of
               None \<Rightarrow> Inl InvalidDateError
             | Some off \<Rightarrow> Inr (nextTishrei1 + day self - off + JEWISH_SDN_OFFSET)))"

text \<open>Indexing a Python tuple: a negative index counts from the end, and an index
  outside both ranges raises.\<close>

definition tuple_index :: "'a list \<Rightarrow> int \<Rightarrow> error + 'a" where
  "tuple_index xs i =
     (if 0 \<le> i \<and> i < int (length xs) then Inr (xs ! nat i)
      else if - int (length xs) \<le> i \<and> i < 0 then Inr (xs ! nat (i + int (length xs)))
      else Inl IndexError)"

definition names :: "string list" where
  "names = [''Tishrei'', ''Cheshvan'', ''Kislev'', ''Tevet'', ''Shevat'', ''Adar I'',
            ''Adar II'', ''Nisan'', ''Iyar'', ''Sivan'', ''Tamuz'', ''Av'', ''Elul'']"

definition english_month_name :: "JewishDate \<Rightarrow> error + string" where
  "english_month_name self =
     (if month self = ADAR_II \<and> \<not> isLeapYear self then Inr ''Adar II''
      else tuple_index names (month self - 1))"

section \<open>The test module\<close>

text \<open>\<open>ADU_DAYS\<close> of tests/rosh\_hashana\_tests.py: Sunday, Wednesday and Friday in the
  numbering of \<open>datetime.date.weekday\<close>, where Monday is 0.\<close>

definition ADU_DAYS :: "int list" where
  "ADU_DAYS = [6, 2, 4]"

section \<open>Notions used in the statements and proofs\<close>

text \<open>The condition of rules 2, 3 and 4 in \<open>_get_first_day_of_year\<close>, and rule 1 as a
  function of the day the first three rules leave.\<close>

definition rules_2_3_4 :: "int \<Rightarrow> Molad \<Rightarrow> bool" where
  "rules_2_3_4 p m \<longleftrightarrow> (halakim m \<ge> NOON
      \<or> (p \<notin> LEAP_YEARS \<and> day_of_week m = TUESDAY \<and> halakim m \<ge> AM3_11_20)
      \<or> ((p - 1) mod 19 \<in> LEAP_YEARS \<and> day_of_week m = MONDAY \<and> halakim m \<ge> AM9_32_43))"

definition rule_1 :: "int \<Rightarrow> int" where
  "rule_1 t = (if t mod 7 \<in> {WEDNESDAY, FRIDAY, SUNDAY} then t + 1 else t)"

text \<open>\<open>_get_first_day_of_year\<close> as a function of what it reads: whether the year and
  the year before it are leap years, and the day and halakim of the molad.\<close>

definition first_day :: "bool \<Rightarrow> bool \<Rightarrow> int \<Rightarrow> int \<Rightarrow> int" where
  "first_day leap lastLeap D h =
     rule_1 (if NOON \<le> h \<or> (\<not> leap \<and> D mod 7 = TUESDAY \<and> AM3_11_20 \<le> h)
                \<or> (lastLeap \<and> D mod 7 = MONDAY \<and> AM9_32_43 \<le> h) then D + 1 else D)"

text \<open>The molad at a number of halakim, normalised.\<close>

definition from_total :: "int \<Rightarrow> Molad" where
  "from_total t = \<lparr>molad_day = t div HALAKIM_PER_DAY, halakim = t mod HALAKIM_PER_DAY\<rparr>"

text \<open>The months from the epoch to the start of a year, and the molad and the first day
  of the year as \<open>_find_start_of_year\<close> computes them. The length of a year is the
  distance to the first day of the next.\<close>

definition months_before :: "int \<Rightarrow> int" where
  "months_before y = 235 * ((y - 1) div 19) + YEAR_OFFSET ! nat ((y - 1) mod 19)"

definition year_molad :: "int \<Rightarrow> Molad" where
  "year_molad y = add_lunar_cycles (YEAR_OFFSET ! nat ((y - 1) mod 19))
                    (molad_of_metonic_cycle ((y - 1) div 19))"

definition tishrei1 :: "int \<Rightarrow> int" where
  "tishrei1 y = get_first_day_of_year ((y - 1) mod 19) (year_molad y)"

definition year_length :: "int \<Rightarrow> int" where
  "year_length y = tishrei1 (y + 1) - tishrei1 y"

definition year_total :: "int \<Rightarrow> int" where
  "year_total y = 31524 + 765433 * months_before y"

text \<open>The length of a month as the code has it: the distance from its first day to the
  first day of the next month in \<open>to_sdn\<close> (lemma \<open>month_start_Suc\<close> below). Cheshvan has
  30 days in a year of 355 or 385 days, Kislev has 29 days in a year of 353 or 383 days,
  and Adar I has no days outside a leap year. \<open>month_start\<close> is the day before the first
  of a month, counted from the epoch.\<close>

definition days_in_month :: "int \<Rightarrow> int \<Rightarrow> int" where
  "days_in_month y m =
     (if m = TISHREI then 30
      else if m = CHESHVAN then (if year_length y \<in> {355, 385} then 30 else 29)
      else if m = KISLEV then (if year_length y \<in> {353, 383} then 29 else 30)
      else if m = TEVET then 29
      else if m = SHEVAT then 30
      else if m = ADAR_I then (if is_leap_year y then 30 else 0)
      else if m = ADAR_II then 29
      else if m = NISAN then 30
      else if m = IYAR then 29
      else if m = SIVAN then 30
      else if m = TAMUZ then 29
      else if m = AV then 30
      else if m = ELUL then 29
      else 0)"

definition month_start :: "int \<Rightarrow> int \<Rightarrow> int" where
  "month_start y m =
     (if m = 1 then tishrei1 y - 1
      else if m = 2 then tishrei1 y + 29
      else if m = 3 then (if year_length y \<in> {355, 385} then tishrei1 y + 59 else tishrei1 y + 58)
      else if m = 4 then tishrei1 (y + 1) - ((if is_leap_year y then 59 else 29) + 237)
      else if m = 5 then tishrei1 (y + 1) - ((if is_leap_year y then 59 else 29) + 208)
      else if m = 6 then tishrei1 (y + 1) - ((if is_leap_year y then 59 else 29) + 178)
      else if m = 7 then tishrei1 (y + 1) - 207
      else if m = 8 then tishrei1 (y + 1) - 178
      else if m = 9 then tishrei1 (y + 1) - 148
      else if m = 10 then tishrei1 (y + 1) - 119
      else if m = 11 then tishrei1 (y + 1) - 89
      else if m = 12 then tishrei1 (y + 1) - 60
      else tishrei1 (y + 1) - 30)"

text \<open>The order of dates in time: by year, then by month, then by day.\<close>

definition date_before :: "JewishDate \<Rightarrow> JewishDate \<Rightarrow> bool" where
  "date_before a b \<longleftrightarrow>
     year a < year b
     \<or> (year a = year b \<and> (month a < month b \<or> (month a = month b \<and> day a < day b)))"

text \<open>A date that stands for the day \<open>X\<close>, counted from the epoch: its fields are in the
  bounds of the constructor, its day is within the length of its month, its leap flag is
  that of its year, and \<open>X\<close> is its day in \<open>to_sdn\<close>.\<close>

definition date_of_day :: "JewishDate \<Rightarrow> int \<Rightarrow> bool" where
  "date_of_day d X \<longleftrightarrow>
     1 \<le> year d \<and> 1 \<le> month d \<and> month d \<le> 13 \<and> 1 \<le> day d \<and> day d \<le> 30
     \<and> day d \<le> days_in_month (year d) (month d)
     \<and> isLeapYear d = is_leap_year (year d)
     \<and> month_start (year d) (month d) + day d = X"

section \<open>The molad arithmetic\<close>

text \<open>Claim C9. Adding any number of halakim, positive or negative, to any molad leaves
  the halakim field in the range from 0 up to, not including, \<open>HALAKIM_PER_DAY\<close>, which
  is 25920, with the part divided off by floor division carried into the day field, and
  the moment the molad stands for moves by exactly the amount added. The same holds for
  adding lunar cycles and metonic cycles, which add the cycle's length times the
  count.\<close>

theorem add_halakim_normalizes:
  "0 \<le> halakim (add_halakim n m) \<and> halakim (add_halakim n m) < HALAKIM_PER_DAY
   \<and> HALAKIM_PER_DAY = 25920
   \<and> molad_day (add_halakim n m) = molad_day m + (halakim m + n) div HALAKIM_PER_DAY
   \<and> halakim (add_halakim n m) = (halakim m + n) mod HALAKIM_PER_DAY
   \<and> total_halakim (add_halakim n m) = total_halakim m + n
   \<and> 0 \<le> halakim (add_lunar_cycles k m) \<and> halakim (add_lunar_cycles k m) < HALAKIM_PER_DAY
   \<and> total_halakim (add_lunar_cycles k m) = total_halakim m + HALAKIM_PER_LUNAR_CYCLE * k
   \<and> 0 \<le> halakim (add_metonic_cycles k m)
   \<and> halakim (add_metonic_cycles k m) < HALAKIM_PER_DAY
   \<and> total_halakim (add_metonic_cycles k m) = total_halakim m + HALAKIM_PER_METONIC_CYCLE * k"
  by (simp add: add_lunar_cycles_def add_metonic_cycles_def add_halakim_def Molad_fix_def
      total_halakim_def HALAKIM_PER_DAY_def algebra_simps)

section \<open>The rules for the first day of the year\<close>

lemma two_steps:
  "(if (if del then ((D::int) mod 7 + 1) mod 7 else D mod 7) \<in> S
    then (if del then D + 1 else D) + 1 else (if del then D + 1 else D))
   = (if (if del then D + 1 else D) mod 7 \<in> S
      then (if del then D + 1 else D) + 1 else (if del then D + 1 else D))"
  by (cases del) (simp_all only: if_True if_False mod_add_left_eq)

lemma get_first_day_of_year_rules:
  "get_first_day_of_year p m = rule_1 (if rules_2_3_4 p m then molad_day m + 1 else molad_day m)"
  unfolding rules_2_3_4_def get_first_day_of_year_def Let_def rule_1_def day_of_week_def
  by (rule two_steps)

lemma rule_1_weekday: "rule_1 t mod 7 \<notin> {SUNDAY, WEDNESDAY, FRIDAY}"
proof -
  have "t mod 7 = 0 \<or> t mod 7 = 1 \<or> t mod 7 = 2 \<or> t mod 7 = 3 \<or> t mod 7 = 4
        \<or> t mod 7 = 5 \<or> t mod 7 = 6"
    by presburger
  moreover have "(t + 1) mod 7 = (t mod 7 + 1) mod 7"
    by presburger
  ultimately show ?thesis
    unfolding rule_1_def SUNDAY_def WEDNESDAY_def FRIDAY_def by auto
qed

lemma get_first_day_of_year_weekday:
  "get_first_day_of_year p m mod 7 \<notin> {SUNDAY, WEDNESDAY, FRIDAY}"
  unfolding get_first_day_of_year_rules by (rule rule_1_weekday)

section \<open>Concrete dates\<close>

text \<open>Claim C2. \<open>from_sdn\<close> at the epoch offset 347997 raises the domain error, and at
  the offset plus one it returns the first of Tishrei of year 1.\<close>

theorem from_sdn_boundary:
  "JEWISH_SDN_OFFSET = 347997
   \<and> from_sdn JEWISH_SDN_OFFSET = Inl InvalidDateError
   \<and> from_sdn (JEWISH_SDN_OFFSET + 1) = JewishDate_init 1 TISHREI 1
   \<and> JewishDate_init 1 TISHREI 1
       = Inr \<lparr>year = 1, month = 1, day = 1, isLeapYear = False\<rparr>"
  by code_simp

text \<open>Claim C6. The first of Tishrei 5774 has the serial day number 2456541, which is
  that of 5 September 2013 (ordinal 735116 of the proleptic Gregorian calendar plus the
  Gregorian offset 1721425), and \<open>from_sdn\<close> takes that number back to the first of
  Tishrei 5774.\<close>

theorem rosh_hashanah_5774:
  "JewishDate_init 5774 1 1 = Inr \<lparr>year = 5774, month = 1, day = 1, isLeapYear = True\<rparr>
   \<and> to_sdn \<lparr>year = 5774, month = 1, day = 1, isLeapYear = True\<rparr> = Inr 2456541
   \<and> 2456541 = 735116 + GREGORIAN_SDN_OFFSET
   \<and> from_sdn 2456541 = Inr \<lparr>year = 5774, month = 1, day = 1, isLeapYear = True\<rparr>"
  by code_simp

section \<open>Month names\<close>

text \<open>Claim C8, at the date 1 Adar 5775, a year that is not a leap year: the name the
  code gives for month 7 is "Adar II", where the claim and the constructor's
  documentation say "Adar".\<close>

theorem english_month_name_adar_5775:
  "JewishDate_init 5775 7 1 = Inr \<lparr>year = 5775, month = 7, day = 1, isLeapYear = False\<rparr>
   \<and> english_month_name \<lparr>year = 5775, month = 7, day = 1, isLeapYear = False\<rparr>
       = Inr ''Adar II''"
  by code_simp

section \<open>The leap years of the metonic cycle\<close>

lemma metonic_year_inj: "inj_on metonic_year {y0 ..< y0 + 19}"
proof (rule inj_onI)
  fix a b
  assume "a \<in> {y0 ..< y0 + 19}" "b \<in> {y0 ..< y0 + 19}" "metonic_year a = metonic_year b"
  then have r: "y0 \<le> a" "a < y0 + 19" "y0 \<le> b" "b < y0 + 19"
    and e: "(a - 1) mod 19 = (b - 1) mod 19"
    by (simp_all add: metonic_year_def)
  from e have "19 dvd (a - 1) - (b - 1)"
    by (simp only: mod_eq_dvd_iff)
  then have d: "19 dvd \<bar>a - b\<bar>"
    by simp
  show "a = b"
  proof (rule ccontr)
    assume "a \<noteq> b"
    with r have "0 < \<bar>a - b\<bar>" "\<bar>a - b\<bar> < 19"
      by linarith+
    then have "\<not> 19 dvd \<bar>a - b\<bar>"
      by (rule zdvd_not_zless)
    with d show False by simp
  qed
qed

lemma metonic_year_image: "metonic_year ` {y0 ..< y0 + 19} = {0 ..< 19}"
proof (rule card_subset_eq)
  show "finite {0 ..< (19::int)}" by simp
  show "metonic_year ` {y0 ..< y0 + 19} \<subseteq> {0 ..< 19}"
    by (auto simp: metonic_year_def)
  have "card (metonic_year ` {y0 ..< y0 + 19}) = card {y0 ..< y0 + 19}"
    by (rule card_image) (rule metonic_year_inj)
  then show "card (metonic_year ` {y0 ..< y0 + 19}) = card {0 ..< (19::int)}"
    by simp
qed

text \<open>Claim C5. Among the 19 years from any year \<open>y0\<close> on, whatever its sign,
  \<open>is_leap_year\<close> holds of exactly 7, and the positions \<open>(year - 1) mod 19\<close> of those 7
  are exactly 2, 5, 7, 10, 13, 16 and 18; a year is a leap year exactly when its position
  is one of these.\<close>

theorem leap_years_in_cycle:
  "card {y \<in> {y0 ..< y0 + 19}. is_leap_year y} = 7
   \<and> metonic_year ` {y \<in> {y0 ..< y0 + 19}. is_leap_year y} = {2, 5, 7, 10, 13, 16, 18}
   \<and> is_leap_year y = (metonic_year y \<in> {2, 5, 7, 10, 13, 16, 18})
   \<and> metonic_year y = (y - 1) mod 19"
proof -
  let ?L = "{y \<in> {y0 ..< y0 + 19}. is_leap_year y}"
  have sub: "LEAP_YEARS \<subseteq> {0 ..< 19}"
    by (simp add: LEAP_YEARS_def)
  have "metonic_year ` ?L = metonic_year ` {y0 ..< y0 + 19} \<inter> LEAP_YEARS"
    by (auto simp: is_leap_year_def)
  with sub have img: "metonic_year ` ?L = LEAP_YEARS"
    by (auto simp: metonic_year_image)
  have "inj_on metonic_year ?L"
    by (rule inj_on_subset [OF metonic_year_inj]) auto
  then have "card (metonic_year ` ?L) = card ?L"
    by (rule card_image)
  with img have "card ?L = card LEAP_YEARS"
    by simp
  also have "\<dots> = 7"
    by (simp add: LEAP_YEARS_def)
  finally have c: "card ?L = 7" .
  show ?thesis
    by (simp only: c img) (simp add: LEAP_YEARS_def is_leap_year_def metonic_year_def)
qed

section \<open>The weekday of the first of Tishrei\<close>

lemma map_of_offset_TISHREI: "map_of (offset_table a) TISHREI = Some (- 1)"
  by (simp add: offset_table_def)

text \<open>Claim C3. For every year from 1 on, the date (year, Tishrei, 1) is constructed
  without error, \<open>to_sdn\<close> returns a serial day number for it, and that number is the day
  \<open>_find_start_of_year\<close> gives for the year, moved by the epoch offset. Its weekday is
  never Sunday, Wednesday or Friday: not in the numbering of the module, which counts
  days from the epoch and has Sunday as 0, Wednesday as 3 and Friday as 5, and not in the
  numbering of the tests, which take the serial day number modulo 7 with Monday as 0, so
  that Sunday, Wednesday and Friday are 6, 2 and 4.\<close>

theorem tishrei1_never_adu:
  assumes "1 \<le> y"
  shows "\<exists>d sdn. JewishDate_init y TISHREI 1 = Inr d \<and> to_sdn d = Inr sdn
     \<and> sdn = snd (snd (snd (find_start_of_year y))) + JEWISH_SDN_OFFSET
     \<and> (sdn - JEWISH_SDN_OFFSET) mod 7 \<notin> {SUNDAY, WEDNESDAY, FRIDAY}
     \<and> sdn mod 7 \<notin> set ADU_DAYS"
proof -
  let ?d = "\<lparr>year = y, month = TISHREI, day = 1, isLeapYear = is_leap_year y\<rparr>"
  obtain c p m t where f: "find_start_of_year y = (c, p, m, t)"
    by (cases "find_start_of_year y") auto
  have t: "t = get_first_day_of_year p m"
    using f by (auto simp add: find_start_of_year_def Let_def)
  have init: "JewishDate_init y TISHREI 1 = Inr ?d"
    using assms by (simp add: JewishDate_init_def TISHREI_def)
  have sdn: "to_sdn ?d = Inr (t + JEWISH_SDN_OFFSET)"
    using assms f by (simp add: to_sdn_def Let_def map_of_offset_TISHREI)
  have w: "t mod 7 \<notin> {SUNDAY, WEDNESDAY, FRIDAY}"
    unfolding t by (rule get_first_day_of_year_weekday)
  then have "t mod 7 \<noteq> 0 \<and> t mod 7 \<noteq> 3 \<and> t mod 7 \<noteq> 5"
    by (simp add: SUNDAY_def WEDNESDAY_def FRIDAY_def)
  then have "(t + 347997) mod 7 \<noteq> 6 \<and> (t + 347997) mod 7 \<noteq> 2
             \<and> (t + 347997) mod 7 \<noteq> 4"
    by presburger
  then have a: "(t + JEWISH_SDN_OFFSET) mod 7 \<notin> set ADU_DAYS"
    by (simp add: JEWISH_SDN_OFFSET_def ADU_DAYS_def)
  show ?thesis
    using init sdn w a f by simp
qed

theorem tishrei1_never_adu_witness:
  "(1::int) \<le> 5774
   \<and> (\<exists>d sdn. JewishDate_init 5774 TISHREI 1 = Inr d \<and> to_sdn d = Inr sdn
        \<and> sdn = snd (snd (snd (find_start_of_year 5774))) + JEWISH_SDN_OFFSET
        \<and> (sdn - JEWISH_SDN_OFFSET) mod 7 \<notin> {SUNDAY, WEDNESDAY, FRIDAY}
        \<and> sdn mod 7 \<notin> set ADU_DAYS)"
  using tishrei1_never_adu [of 5774] by simp

section \<open>The errors of to\_sdn\<close>

lemmas month_defs = TISHREI_def CHESHVAN_def KISLEV_def TEVET_def SHEVAT_def
  ADAR_I_def ADAR_II_def NISAN_def IYAR_def SIVAN_def TAMUZ_def AV_def ELUL_def

lemma month_cases:
  "(m::int) < 1 \<or> 13 < m \<or> m = 1 \<or> m = 2 \<or> m = 3 \<or> m = 4 \<or> m = 5 \<or> m = 6 \<or> m = 7
   \<or> m = 8 \<or> m = 9 \<or> m = 10 \<or> m = 11 \<or> m = 12 \<or> m = 13"
  by presburger

text \<open>Claim C7 as the code has it false: 5775 is not a leap year, the date (5775, 6, 1)
  is constructed without error, and \<open>to_sdn\<close> returns a serial day number for it.\<close>

theorem to_sdn_adar_I_5775:
  "\<not> is_leap_year 5775
   \<and> JewishDate_init 5775 ADAR_I 1
       = Inr \<lparr>year = 5775, month = 6, day = 1, isLeapYear = False\<rparr>
   \<and> to_sdn \<lparr>year = 5775, month = 6, day = 1, isLeapYear = False\<rparr> = Inr 2457074"
  by code_simp

text \<open>Claim C7, amended. For a date with a year from 1 on and a day from 1 to 30,
  \<open>to_sdn\<close> raises the domain error exactly when the month has no entry in its table,
  which is when the month is outside 1..13, and returns a serial day number otherwise.
  Month 6 (Adar I) has an entry in every year: in a year whose leap flag is off,
  \<open>to_sdn\<close> returns for it what it returns for month 7 (Adar) with the same day.\<close>

theorem to_sdn_domain_errors:
  assumes "1 \<le> year self" and "1 \<le> day self" and "day self \<le> 30"
  shows "(to_sdn self = Inl InvalidDateError) = (month self < 1 \<or> 13 < month self)
     \<and> (\<exists>sdn. to_sdn self = Inr sdn) = (1 \<le> month self \<and> month self \<le> 13)
     \<and> (month self = ADAR_I \<and> \<not> isLeapYear self
          \<longrightarrow> to_sdn self = to_sdn (self\<lparr>month := ADAR_II\<rparr>))"
proof -
  obtain c p m t where f: "find_start_of_year (year self) = (c, p, m, t)"
    by (cases "find_start_of_year (year self)") auto
  consider "month self < 1 \<or> 13 < month self" | "month self = 1" | "month self = 2"
    | "month self = 3" | "month self = 4" | "month self = 5" | "month self = 6"
    | "month self = 7" | "month self = 8" | "month self = 9" | "month self = 10"
    | "month self = 11" | "month self = 12" | "month self = 13"
    using month_cases [of "month self"] by blast
  then show ?thesis
    using assms f
    by cases (auto simp add: to_sdn_def Let_def offset_table_def month_defs)
qed

theorem to_sdn_domain_errors_witness:
  "(1::int) \<le> 5775
   \<and> to_sdn \<lparr>year = 5775, month = 6, day = 1, isLeapYear = False\<rparr> \<noteq> Inl InvalidDateError
   \<and> to_sdn \<lparr>year = 5775, month = 6, day = 1, isLeapYear = False\<rparr>
       = to_sdn \<lparr>year = 5775, month = 7, day = 1, isLeapYear = False\<rparr>
   \<and> to_sdn \<lparr>year = 5775, month = 14, day = 1, isLeapYear = False\<rparr> = Inl InvalidDateError"
  using to_sdn_domain_errors [of "\<lparr>year = 5775, month = 6, day = 1, isLeapYear = False\<rparr>"]
    to_sdn_domain_errors [of "\<lparr>year = 5775, month = 14, day = 1, isLeapYear = False\<rparr>"]
  by (auto simp add: ADAR_I_def ADAR_II_def)

section \<open>The length of a year\<close>

lemma get_first_day_of_year_first_day:
  "get_first_day_of_year p m
   = first_day (p \<in> LEAP_YEARS) ((p - 1) mod 19 \<in> LEAP_YEARS) (molad_day m) (halakim m)"
  by (simp add: get_first_day_of_year_rules rules_2_3_4_def first_day_def day_of_week_def)

lemmas time_defs = NOON_def AM3_11_20_def AM9_32_43_def HALAKIM_PER_HOUR_def

lemmas dow_defs = SUNDAY_def MONDAY_def TUESDAY_def WEDNESDAY_def FRIDAY_def

lemma first_day_sun: "D mod 7 = 0 \<Longrightarrow> first_day a b D h = D + 1"
proof -
  assume d: "D mod 7 = 0"
  then have "(D + 1) mod 7 = 1" by presburger
  with d show ?thesis by (simp add: first_day_def rule_1_def dow_defs)
qed

lemma first_day_mon:
  "D mod 7 = 1 \<Longrightarrow> first_day a b D h = (if 19440 \<le> h \<or> (b \<and> 16789 \<le> h) then D + 1 else D)"
proof -
  assume d: "D mod 7 = 1"
  then have "(D + 1) mod 7 = 2" by presburger
  with d show ?thesis by (simp add: first_day_def rule_1_def dow_defs time_defs)
qed

lemma first_day_tue:
  "D mod 7 = 2 \<Longrightarrow> first_day a b D h = (if 19440 \<le> h \<or> (\<not> a \<and> 9924 \<le> h) then D + 2 else D)"
proof -
  assume d: "D mod 7 = 2"
  then have "(D + 1) mod 7 = 3" by presburger
  with d show ?thesis by (simp add: first_day_def rule_1_def dow_defs time_defs)
qed

lemma first_day_wed: "D mod 7 = 3 \<Longrightarrow> first_day a b D h = D + 1"
proof -
  assume d: "D mod 7 = 3"
  then have "(D + 1) mod 7 = 4" by presburger
  with d show ?thesis by (simp add: first_day_def rule_1_def dow_defs time_defs)
qed

lemma first_day_thu: "D mod 7 = 4 \<Longrightarrow> first_day a b D h = (if 19440 \<le> h then D + 2 else D)"
proof -
  assume d: "D mod 7 = 4"
  then have "(D + 1) mod 7 = 5" by presburger
  with d show ?thesis by (simp add: first_day_def rule_1_def dow_defs time_defs)
qed

lemma first_day_fri: "D mod 7 = 5 \<Longrightarrow> first_day a b D h = D + 1"
proof -
  assume d: "D mod 7 = 5"
  then have "(D + 1) mod 7 = 6" by presburger
  with d show ?thesis by (simp add: first_day_def rule_1_def dow_defs time_defs)
qed

lemma first_day_sat: "D mod 7 = 6 \<Longrightarrow> first_day a b D h = (if 19440 \<le> h then D + 2 else D)"
proof -
  assume d: "D mod 7 = 6"
  then have "(D + 1) mod 7 = 0" by presburger
  with d show ?thesis by (simp add: first_day_def rule_1_def dow_defs time_defs)
qed

lemma dow_cases:
  "(D::int) mod 7 = 0 \<or> D mod 7 = 1 \<or> D mod 7 = 2 \<or> D mod 7 = 3 \<or> D mod 7 = 4
   \<or> D mod 7 = 5 \<or> D mod 7 = 6"
proof -
  have "0 \<le> D mod 7" "D mod 7 < 7" by simp_all
  then show ?thesis by arith
qed

lemma dow_shift: "(D::int) mod 7 = r \<Longrightarrow> (D + k) mod 7 = (r + k) mod 7"
  by (metis mod_add_left_eq)

lemmas first_day_table = first_day_sun first_day_mon first_day_tue first_day_wed
  first_day_thu first_day_fri first_day_sat

lemma year_length_12:
  assumes "0 \<le> h" and "h < 25920"
  shows "first_day a' False (if 16404 \<le> h then D + 355 else D + 354)
           (if 16404 \<le> h then h - 16404 else h + 9516)
         - first_day False b D h \<in> {353, 354, 355}"
proof -
  consider "D mod 7 = 0" | "D mod 7 = 1" | "D mod 7 = 2" | "D mod 7 = 3" | "D mod 7 = 4"
    | "D mod 7 = 5" | "D mod 7 = 6"
    using dow_cases [of D] by blast
  then show ?thesis
  proof cases
    case 1
    have "(D + 354) mod 7 = 4" "(D + 355) mod 7 = 5"
      using dow_shift [OF 1, of 354] dow_shift [OF 1, of 355] by simp_all
    with 1 assms show ?thesis by (auto simp add: first_day_table)
  next
    case 2
    have "(D + 354) mod 7 = 5" "(D + 355) mod 7 = 6"
      using dow_shift [OF 2, of 354] dow_shift [OF 2, of 355] by simp_all
    with 2 assms show ?thesis by (auto simp add: first_day_table)
  next
    case 3
    have "(D + 354) mod 7 = 6" "(D + 355) mod 7 = 0"
      using dow_shift [OF 3, of 354] dow_shift [OF 3, of 355] by simp_all
    with 3 assms show ?thesis by (auto simp add: first_day_table)
  next
    case 4
    have "(D + 354) mod 7 = 0" "(D + 355) mod 7 = 1"
      using dow_shift [OF 4, of 354] dow_shift [OF 4, of 355] by simp_all
    with 4 assms show ?thesis by (auto simp add: first_day_table)
  next
    case 5
    have "(D + 354) mod 7 = 1" "(D + 355) mod 7 = 2"
      using dow_shift [OF 5, of 354] dow_shift [OF 5, of 355] by simp_all
    with 5 assms show ?thesis by (auto simp add: first_day_table)
  next
    case 6
    have "(D + 354) mod 7 = 2" "(D + 355) mod 7 = 3"
      using dow_shift [OF 6, of 354] dow_shift [OF 6, of 355] by simp_all
    with 6 assms show ?thesis by (auto simp add: first_day_table)
  next
    case 7
    have "(D + 354) mod 7 = 3" "(D + 355) mod 7 = 4"
      using dow_shift [OF 7, of 354] dow_shift [OF 7, of 355] by simp_all
    with 7 assms show ?thesis by (auto simp add: first_day_table)
  qed
qed

lemma year_length_13:
  assumes "0 \<le> h" and "h < 25920"
  shows "first_day False True (if 2651 \<le> h then D + 384 else D + 383)
           (if 2651 \<le> h then h - 2651 else h + 23269)
         - first_day True False D h \<in> {383, 384, 385}"
proof -
  consider "D mod 7 = 0" | "D mod 7 = 1" | "D mod 7 = 2" | "D mod 7 = 3" | "D mod 7 = 4"
    | "D mod 7 = 5" | "D mod 7 = 6"
    using dow_cases [of D] by blast
  then show ?thesis
  proof cases
    case 1
    have "(D + 383) mod 7 = 5" "(D + 384) mod 7 = 6"
      using dow_shift [OF 1, of 383] dow_shift [OF 1, of 384] by simp_all
    with 1 assms show ?thesis by (auto simp add: first_day_table)
  next
    case 2
    have "(D + 383) mod 7 = 6" "(D + 384) mod 7 = 0"
      using dow_shift [OF 2, of 383] dow_shift [OF 2, of 384] by simp_all
    with 2 assms show ?thesis by (auto simp add: first_day_table)
  next
    case 3
    have "(D + 383) mod 7 = 0" "(D + 384) mod 7 = 1"
      using dow_shift [OF 3, of 383] dow_shift [OF 3, of 384] by simp_all
    with 3 assms show ?thesis by (auto simp add: first_day_table)
  next
    case 4
    have "(D + 383) mod 7 = 1" "(D + 384) mod 7 = 2"
      using dow_shift [OF 4, of 383] dow_shift [OF 4, of 384] by simp_all
    with 4 assms show ?thesis by (auto simp add: first_day_table)
  next
    case 5
    have "(D + 383) mod 7 = 2" "(D + 384) mod 7 = 3"
      using dow_shift [OF 5, of 383] dow_shift [OF 5, of 384] by simp_all
    with 5 assms show ?thesis by (auto simp add: first_day_table)
  next
    case 6
    have "(D + 383) mod 7 = 3" "(D + 384) mod 7 = 4"
      using dow_shift [OF 6, of 383] dow_shift [OF 6, of 384] by simp_all
    with 6 assms show ?thesis by (auto simp add: first_day_table)
  next
    case 7
    have "(D + 383) mod 7 = 4" "(D + 384) mod 7 = 5"
      using dow_shift [OF 7, of 383] dow_shift [OF 7, of 384] by simp_all
    with 7 assms show ?thesis by (auto simp add: first_day_table)
  qed
qed

section \<open>The molad of a year\<close>

lemma add_halakim_from_total: "add_halakim n (from_total t) = from_total (t + n)"
proof -
  have "t + n = 25920 * (t div 25920) + (t mod 25920 + n)" by simp
  then have "(t + n) div 25920 = (25920 * (t div 25920) + (t mod 25920 + n)) div 25920"
    by simp
  also have "\<dots> = t div 25920 + (t mod 25920 + n) div 25920"
    by (simp only: div_mult_self2 [of 25920 "t mod 25920 + n" "t div 25920"]
        add.commute [of "25920 * (t div 25920)"])
  finally have d: "t div 25920 + (t mod 25920 + n) div 25920 = (t + n) div (25920::int)"
    by simp
  have "(t mod 25920 + n) mod 25920 = (t + n) mod (25920::int)"
    by (simp add: mod_add_left_eq)
  with d show ?thesis
    by (simp add: add_halakim_def Molad_fix_def from_total_def HALAKIM_PER_DAY_def)
qed

lemma Molad_init_from_total: "Molad_init 0 h = from_total h"
  by (simp add: Molad_init_def Molad_fix_def from_total_def)

lemma molad_of_metonic_cycle_total:
  "molad_of_metonic_cycle c = from_total (31524 + 179876755 * c)"
  by (simp add: molad_of_metonic_cycle_def add_metonic_cycles_def Molad_init_from_total
      add_halakim_from_total NEW_MOON_OF_CREATION_def HALAKIM_PER_METONIC_CYCLE_def
      HALAKIM_PER_LUNAR_CYCLE_def HALAKIM_PER_DAY_def)

lemma add_lunar_cycles_from_total:
  "add_lunar_cycles k (from_total t) = from_total (t + 765433 * k)"
  by (simp add: add_lunar_cycles_def add_halakim_from_total HALAKIM_PER_LUNAR_CYCLE_def
      HALAKIM_PER_DAY_def)

lemma year_molad_total: "year_molad y = from_total (31524 + 765433 * months_before y)"
  by (simp add: year_molad_def molad_of_metonic_cycle_total add_lunar_cycles_from_total
      months_before_def add.assoc)

lemma find_start_of_year_eq:
  "find_start_of_year y = ((y - 1) div 19, (y - 1) mod 19, year_molad y, tishrei1 y)"
  by (simp add: find_start_of_year_def Let_def year_molad_def tishrei1_def)

lemma pos_cases:
  "(p::int) = 0 \<or> p = 1 \<or> p = 2 \<or> p = 3 \<or> p = 4 \<or> p = 5 \<or> p = 6 \<or> p = 7 \<or> p = 8
   \<or> p = 9 \<or> p = 10 \<or> p = 11 \<or> p = 12 \<or> p = 13 \<or> p = 14 \<or> p = 15 \<or> p = 16
   \<or> p = 17 \<or> p = 18" if "0 \<le> p" "p < 19"
  using that by arith

lemma next_position:
  assumes "((y::int) - 1) mod 19 = p" and "p < 18"
  shows "y mod 19 = p + 1" and "y div 19 = (y - 1) div 19"
proof -
  have "0 \<le> (y - 1) mod 19" by simp
  with assms have p: "0 \<le> p + 1" "p + 1 < 19" by simp_all
  have "y - 1 = 19 * ((y - 1) div 19) + (y - 1) mod 19" by simp
  with assms have y: "y = 19 * ((y - 1) div 19) + (p + 1)" by simp
  show "y mod 19 = p + 1" by (rule int_mod_pos_eq [OF y p])
  show "y div 19 = (y - 1) div 19" by (rule int_div_pos_eq [OF y p])
qed

lemma next_position_18:
  assumes "((y::int) - 1) mod 19 = 18"
  shows "y mod 19 = 0" and "y div 19 = (y - 1) div 19 + 1"
proof -
  have "y - 1 = 19 * ((y - 1) div 19) + (y - 1) mod 19" by simp
  with assms have y: "y = 19 * ((y - 1) div 19 + 1) + 0" by simp
  show "y mod 19 = 0" by (rule int_mod_pos_eq [OF y]) simp_all
  show "y div 19 = (y - 1) div 19 + 1" by (rule int_div_pos_eq [OF y]) simp_all
qed

lemma months_before_Suc:
  "months_before (y + 1) = months_before y + months_in_metonic_year ((y - 1) mod 19)"
proof -
  have "0 \<le> (y - 1) mod 19" "(y - 1) mod 19 < 19" by simp_all
  then consider "(y - 1) mod 19 = 18" | "(y - 1) mod 19 < 18" by linarith
  then show ?thesis
  proof cases
    case 1
    then show ?thesis
      using next_position_18 [OF 1]
      by (simp add: months_before_def YEAR_OFFSET_def months_in_metonic_year_def LEAP_YEARS_def)
  next
    case 2
    note n = next_position [OF refl 2]
    from 2 have "0 \<le> (y - 1) mod 19" "(y - 1) mod 19 < 19" by simp_all
    from pos_cases [OF this] 2 show ?thesis
      unfolding months_before_def
      by (elim disjE)
        (simp_all add: n YEAR_OFFSET_def months_in_metonic_year_def LEAP_YEARS_def)
  qed
qed

lemma year_molad_Suc:
  "add_lunar_cycles (months_in_metonic_year ((y - 1) mod 19)) (year_molad y) = year_molad (y + 1)"
  by (simp add: year_molad_total add_lunar_cycles_from_total months_before_Suc
      distrib_left add.assoc)

lemma from_total_step:
  assumes "0 \<le> r" and "r < 25920" and "r + thr = 25920"
  shows "from_total (t + (25920 * n + r))
         = \<lparr>molad_day = (if thr \<le> t mod 25920 then t div 25920 + (n + 1) else t div 25920 + n),
            halakim = (if thr \<le> t mod 25920 then t mod 25920 - thr else t mod 25920 + r)\<rparr>"
proof (cases "thr \<le> t mod 25920")
  case True
  have t: "t = 25920 * (t div 25920) + t mod 25920" by simp
  have e: "t + (25920 * n + r) = 25920 * (t div 25920 + (n + 1)) + (t mod 25920 - thr)"
    using assms t by (simp add: algebra_simps)
  have b: "0 \<le> t mod 25920 - thr" "t mod 25920 - thr < 25920"
    using True assms by simp_all
  show ?thesis
    using True int_div_pos_eq [OF e b] int_mod_pos_eq [OF e b]
    by (simp add: from_total_def HALAKIM_PER_DAY_def)
next
  case False
  have t: "t = 25920 * (t div 25920) + t mod 25920" by simp
  have e: "t + (25920 * n + r) = 25920 * (t div 25920 + n) + (t mod 25920 + r)"
    using assms t by (simp add: algebra_simps)
  have b: "0 \<le> t mod 25920 + r" "t mod 25920 + r < 25920"
    using False assms by simp_all
  show ?thesis
    using False int_div_pos_eq [OF e b] int_mod_pos_eq [OF e b]
    by (simp add: from_total_def HALAKIM_PER_DAY_def)
qed

lemma from_total_12:
  "from_total (t + 765433 * 12)
   = \<lparr>molad_day = (if 16404 \<le> t mod 25920 then t div 25920 + 355 else t div 25920 + 354),
      halakim = (if 16404 \<le> t mod 25920 then t mod 25920 - 16404 else t mod 25920 + 9516)\<rparr>"
  using from_total_step [of 9516 16404 t 354] by simp

lemma from_total_13:
  "from_total (t + 765433 * 13)
   = \<lparr>molad_day = (if 2651 \<le> t mod 25920 then t div 25920 + 384 else t div 25920 + 383),
      halakim = (if 2651 \<le> t mod 25920 then t mod 25920 - 2651 else t mod 25920 + 23269)\<rparr>"
  using from_total_step [of 23269 2651 t 383] by simp

lemma year_total_Suc:
  "year_total (y + 1) = year_total y + 765433 * (if is_leap_year y then 13 else 12)"
  by (simp add: year_total_def months_before_Suc months_in_metonic_year_def is_leap_year_def
      metonic_year_def distrib_left)

lemma leap_neighbours:
  assumes "is_leap_year y"
  shows "\<not> is_leap_year (y - 1)" and "\<not> is_leap_year (y + 1)"
proof -
  have m: "(y - 1 - 1) mod 19 = ((y - 1) mod 19 - 1) mod 19"
    "(y + 1 - 1) mod 19 = ((y - 1) mod 19 + 1) mod 19"
    by (simp_all add: mod_diff_left_eq mod_add_left_eq)
  from assms have "(y - 1) mod 19 \<in> {2, 5, 7, 10, 13, 16, 18}"
    by (simp add: is_leap_year_def metonic_year_def LEAP_YEARS_def)
  then show "\<not> is_leap_year (y - 1)" and "\<not> is_leap_year (y + 1)"
    unfolding is_leap_year_def metonic_year_def LEAP_YEARS_def m by auto
qed

lemma tishrei1_first_day:
  "tishrei1 y = first_day (is_leap_year y) (is_leap_year (y - 1))
                  (year_total y div 25920) (year_total y mod 25920)"
proof -
  have "((y - 1) mod 19 - 1) mod 19 = (y - 1 - 1) mod 19"
    by (simp add: mod_diff_left_eq)
  then show ?thesis
    by (simp add: tishrei1_def get_first_day_of_year_first_day year_molad_total from_total_def
        is_leap_year_def metonic_year_def year_total_def HALAKIM_PER_DAY_def)
qed

lemma year_length_common:
  assumes "\<not> is_leap_year y"
  shows "year_length y \<in> {353, 354, 355}"
proof -
  let ?t = "year_total y"
  have h: "0 \<le> ?t mod 25920" "?t mod 25920 < 25920" by simp_all
  have "tishrei1 (y + 1) = first_day (is_leap_year (y + 1)) False
          (if 16404 \<le> ?t mod 25920 then ?t div 25920 + 355 else ?t div 25920 + 354)
          (if 16404 \<le> ?t mod 25920 then ?t mod 25920 - 16404 else ?t mod 25920 + 9516)"
    using assms from_total_12 [of ?t]
    by (simp add: tishrei1_first_day [of "y + 1"] year_total_Suc from_total_def
        HALAKIM_PER_DAY_def)
  then show ?thesis
    using year_length_12 [OF h, of "is_leap_year (y + 1)" "?t div 25920" "is_leap_year (y - 1)"]
      assms
    by (simp add: year_length_def tishrei1_first_day [of y])
qed

lemma year_length_leap:
  assumes "is_leap_year y"
  shows "year_length y \<in> {383, 384, 385}"
proof -
  let ?t = "year_total y"
  have h: "0 \<le> ?t mod 25920" "?t mod 25920 < 25920" by simp_all
  have "tishrei1 (y + 1) = first_day False True
          (if 2651 \<le> ?t mod 25920 then ?t div 25920 + 384 else ?t div 25920 + 383)
          (if 2651 \<le> ?t mod 25920 then ?t mod 25920 - 2651 else ?t mod 25920 + 23269)"
    using assms leap_neighbours [OF assms] from_total_13 [of ?t]
    by (simp add: tishrei1_first_day [of "y + 1"] year_total_Suc from_total_def
        HALAKIM_PER_DAY_def)
  then show ?thesis
    using year_length_13 [OF h, of "?t div 25920"] assms leap_neighbours [OF assms]
    by (simp add: year_length_def tishrei1_first_day [of y])
qed

section \<open>The serial day number of a date\<close>

lemma next_tishrei1:
  "get_first_day_of_year (((y - 1) mod 19 + 1) mod 19)
     (add_lunar_cycles (months_in_metonic_year ((y - 1) mod 19)) (year_molad y))
   = tishrei1 (y + 1)"
  by (simp add: year_molad_Suc tishrei1_def mod_add_left_eq)

lemma to_sdn_month_start:
  assumes "1 \<le> year self" and "1 \<le> day self" and "day self \<le> 30"
    and "1 \<le> month self" and "month self \<le> 13"
    and "isLeapYear self = is_leap_year (year self)"
  shows "to_sdn self
         = Inr (month_start (year self) (month self) + day self + JEWISH_SDN_OFFSET)"
proof -
  consider "month self = 1" | "month self = 2"
    | "month self = 3" | "month self = 4" | "month self = 5" | "month self = 6"
    | "month self = 7" | "month self = 8" | "month self = 9" | "month self = 10"
    | "month self = 11" | "month self = 12" | "month self = 13"
    using month_cases [of "month self"] assms by linarith
  then show ?thesis
    using assms
    by cases
      (simp_all add: to_sdn_def Let_def find_start_of_year_eq next_tishrei1 year_length_def
        offset_table_def month_defs month_start_def)
qed

lemma int_chain:
  fixes f :: "int \<Rightarrow> int"
  assumes step: "\<And>m. lo \<le> m \<Longrightarrow> m < hi \<Longrightarrow> f m \<le> f (m + 1)"
    and "lo \<le> a" and "a \<le> b" and "b \<le> hi"
  shows "f a \<le> f b"
proof -
  have "b \<le> hi \<longrightarrow> f a \<le> f b"
    using \<open>a \<le> b\<close>
  proof (induction b rule: int_ge_induct)
    case base
    show ?case by simp
  next
    case (step i)
    show ?case
    proof
      assume "i + 1 \<le> hi"
      then have "i < hi" by simp
      moreover from \<open>lo \<le> a\<close> \<open>a \<le> i\<close> have "lo \<le> i" by simp
      ultimately have "f i \<le> f (i + 1)" by (rule assms(1) [rotated])
      with step.IH \<open>i < hi\<close> show "f a \<le> f (i + 1)" by simp
    qed
  qed
  with \<open>b \<le> hi\<close> show ?thesis by simp
qed

lemma year_length_cases:
  "(\<not> is_leap_year y \<and> (year_length y = 353 \<or> year_length y = 354 \<or> year_length y = 355))
   \<or> (is_leap_year y \<and> (year_length y = 383 \<or> year_length y = 384 \<or> year_length y = 385))"
  using year_length_common [of y] year_length_leap [of y] by (cases "is_leap_year y") auto

lemma tishrei1_Suc: "tishrei1 (y + 1) = tishrei1 y + year_length y"
  by (simp add: year_length_def)

lemma month_start_Suc:
  assumes "1 \<le> m" and "m < 13"
  shows "month_start y (m + 1) = month_start y m + days_in_month y m"
proof -
  consider "m = 1" | "m = 2" | "m = 3" | "m = 4" | "m = 5" | "m = 6" | "m = 7" | "m = 8"
    | "m = 9" | "m = 10" | "m = 11" | "m = 12"
    using month_cases [of m] assms by linarith
  then show ?thesis
    using year_length_cases [of y]
    by cases
      (auto simp add: month_start_def days_in_month_def month_defs tishrei1_Suc)
qed

lemma days_in_month_nonneg: "0 \<le> days_in_month y m"
  by (simp add: days_in_month_def)

lemma month_start_mono:
  assumes "1 \<le> a" and "a \<le> b" and "b \<le> 13"
  shows "month_start y a \<le> month_start y b"
proof (rule int_chain [where f = "month_start y" and lo = 1 and hi = 13])
  fix m :: int
  assume "1 \<le> m" "m < 13"
  then show "month_start y m \<le> month_start y (m + 1)"
    using month_start_Suc [of m y] days_in_month_nonneg [of y m] by simp
qed (use assms in simp_all)

lemma month_start_first: "month_start y 1 = tishrei1 y - 1"
  by (simp add: month_start_def)

lemma month_start_last: "month_start y 13 + days_in_month y 13 = tishrei1 (y + 1) - 1"
  by (simp add: month_start_def days_in_month_def month_defs)

lemma year_length_pos: "353 \<le> year_length y"
  using year_length_cases [of y] by auto

lemma tishrei1_mono:
  assumes "a \<le> b"
  shows "tishrei1 a \<le> tishrei1 b"
proof (rule int_chain [where f = tishrei1 and lo = a and hi = b])
  fix m :: int
  show "tishrei1 m \<le> tishrei1 (m + 1)"
    using year_length_pos [of m] by (simp add: tishrei1_Suc)
qed (use assms in simp_all)

lemma month_end_le_next_start:
  assumes "1 \<le> m1" and "m1 < m2" and "m2 \<le> 13" and "d1 \<le> days_in_month y m1"
  shows "month_start y m1 + d1 \<le> month_start y m2"
proof -
  have "month_start y m1 + d1 \<le> month_start y (m1 + 1)"
    using assms month_start_Suc [of m1 y] by simp
  also have "\<dots> \<le> month_start y m2"
    using assms by (intro month_start_mono) simp_all
  finally show ?thesis .
qed

lemma day_number_bounds:
  assumes "1 \<le> m" and "m \<le> 13" and "1 \<le> d" and "d \<le> days_in_month y m"
  shows "tishrei1 y \<le> month_start y m + d" and "month_start y m + d < tishrei1 (y + 1)"
proof -
  have "month_start y 1 \<le> month_start y m"
    using assms by (intro month_start_mono) simp_all
  with assms show "tishrei1 y \<le> month_start y m + d"
    by (simp add: month_start_first)
  show "month_start y m + d < tishrei1 (y + 1)"
  proof (cases "m = 13")
    case True
    with assms month_start_last [of y] show ?thesis by simp
  next
    case False
    with assms have "month_start y m + d \<le> month_start y 13"
      by (intro month_end_le_next_start) simp_all
    with month_start_last [of y] days_in_month_nonneg [of y 13] show ?thesis by simp
  qed
qed

lemma JewishDate_init_Inr:
  assumes "JewishDate_init y m d = Inr a"
  shows "a = \<lparr>year = y, month = m, day = d, isLeapYear = is_leap_year y\<rparr>"
    and "1 \<le> y" and "1 \<le> m" and "m \<le> 13" and "1 \<le> d" and "d \<le> 30"
  using assms by (auto simp add: JewishDate_init_def split: if_splits)

text \<open>Claim C4. Take two dates that the constructor accepts and whose days do not
  exceed the lengths of their months. If the first is before the second in time, \<open>to_sdn\<close>
  returns a serial day number for each, and the number of the first is strictly less than
  the number of the second.\<close>

theorem to_sdn_strictly_monotone:
  assumes a: "JewishDate_init y1 m1 d1 = Inr a" and b: "JewishDate_init y2 m2 d2 = Inr b"
    and la: "d1 \<le> days_in_month y1 m1" and lb: "d2 \<le> days_in_month y2 m2"
    and before: "date_before a b"
  shows "\<exists>sa sb. to_sdn a = Inr sa \<and> to_sdn b = Inr sb \<and> sa < sb"
proof -
  note ia = JewishDate_init_Inr [OF a] and ib = JewishDate_init_Inr [OF b]
  have sa: "to_sdn a = Inr (month_start y1 m1 + d1 + JEWISH_SDN_OFFSET)"
    using ia by (simp add: to_sdn_month_start)
  have sb: "to_sdn b = Inr (month_start y2 m2 + d2 + JEWISH_SDN_OFFSET)"
    using ib by (simp add: to_sdn_month_start)
  from before ia(1) ib(1)
  consider "y1 < y2" | "y1 = y2" "m1 < m2" | "y1 = y2" "m1 = m2" "d1 < d2"
    by (auto simp add: date_before_def)
  then have "month_start y1 m1 + d1 < month_start y2 m2 + d2"
  proof cases
    case 1
    have "month_start y1 m1 + d1 < tishrei1 (y1 + 1)"
      using ia la by (intro day_number_bounds) simp_all
    also have "\<dots> \<le> tishrei1 y2"
      using 1 by (intro tishrei1_mono) simp
    also have "\<dots> \<le> month_start y2 m2 + d2"
      using ib lb by (intro day_number_bounds) simp_all
    finally show ?thesis .
  next
    case 2
    have "month_start y1 m1 + d1 \<le> month_start y1 m2"
      using 2 ia ib la by (intro month_end_le_next_start) simp_all
    with 2 ib show ?thesis by simp
  next
    case 3
    then show ?thesis by simp
  qed
  with sa sb show ?thesis by simp
qed

theorem to_sdn_strictly_monotone_witness:
  "JewishDate_init 5774 1 30 = Inr \<lparr>year = 5774, month = 1, day = 30, isLeapYear = True\<rparr>
   \<and> JewishDate_init 5774 2 1 = Inr \<lparr>year = 5774, month = 2, day = 1, isLeapYear = True\<rparr>
   \<and> 30 \<le> days_in_month 5774 1 \<and> 1 \<le> days_in_month 5774 2
   \<and> date_before \<lparr>year = 5774, month = 1, day = 30, isLeapYear = True\<rparr>
        \<lparr>year = 5774, month = 2, day = 1, isLeapYear = True\<rparr>
   \<and> (\<exists>sa sb. to_sdn \<lparr>year = 5774, month = 1, day = 30, isLeapYear = True\<rparr> = Inr sa
        \<and> to_sdn \<lparr>year = 5774, month = 2, day = 1, isLeapYear = True\<rparr> = Inr sb \<and> sa < sb)"
proof -
  have i: "JewishDate_init 5774 1 30 = Inr \<lparr>year = 5774, month = 1, day = 30, isLeapYear = True\<rparr>"
    "JewishDate_init 5774 2 1 = Inr \<lparr>year = 5774, month = 2, day = 1, isLeapYear = True\<rparr>"
    by code_simp+
  have l: "30 \<le> days_in_month 5774 1" "1 \<le> days_in_month 5774 2"
    by (simp_all add: days_in_month_def month_defs)
  have d: "date_before \<lparr>year = 5774, month = 1, day = 30, isLeapYear = True\<rparr>
        \<lparr>year = 5774, month = 2, day = 1, isLeapYear = True\<rparr>"
    by (simp add: date_before_def)
  from to_sdn_strictly_monotone [OF i l d] i l d show ?thesis by simp
qed

section \<open>The search for the nearby molad of Tishrei\<close>

lemma from_total_simps [simp]:
  "molad_day (from_total t) = t div 25920" "halakim (from_total t) = t mod 25920"
  by (simp_all add: from_total_def HALAKIM_PER_DAY_def)

lemma cycle_day_upper:
  assumes "0 \<le> c"
  shows "molad_day (molad_of_metonic_cycle c) \<le> 1 + 6940 * c"
proof -
  have "(31524 + 179876755 * c) div 25920 \<le> 1 + 6940 * c"
    using assms by linarith
  then show ?thesis by (simp add: molad_of_metonic_cycle_total)
qed

lemma add_metonic_cycle_total:
  "add_metonic_cycles 1 (molad_of_metonic_cycle c) = molad_of_metonic_cycle (c + 1)"
  by (simp add: molad_of_metonic_cycle_total add_metonic_cycles_def add_halakim_from_total
      HALAKIM_PER_METONIC_CYCLE_def HALAKIM_PER_LUNAR_CYCLE_def HALAKIM_PER_DAY_def
      distrib_left add.assoc)

lemma cycle_day_step:
  "molad_day (molad_of_metonic_cycle (c + 1)) \<le> molad_day (molad_of_metonic_cycle c) + 6940"
  "molad_day (molad_of_metonic_cycle c) + 6939 \<le> molad_day (molad_of_metonic_cycle (c + 1))"
proof -
  let ?t = "31524 + 179876755 * c"
  have "31524 + 179876755 * (c + 1) = ?t + (25920 * 6939 + 17875)"
    by (simp add: distrib_left)
  then have "molad_of_metonic_cycle (c + 1) = from_total (?t + (25920 * 6939 + 17875))"
    by (simp only: molad_of_metonic_cycle_total)
  also have "\<dots> = \<lparr>molad_day = (if 8045 \<le> ?t mod 25920 then ?t div 25920 + (6939 + 1)
                                   else ?t div 25920 + 6939),
      halakim = (if 8045 \<le> ?t mod 25920 then ?t mod 25920 - 8045 else ?t mod 25920 + 17875)\<rparr>"
    by (rule from_total_step) simp_all
  finally have e: "molad_day (molad_of_metonic_cycle (c + 1))
     = (if 8045 \<le> ?t mod 25920 then ?t div 25920 + 6940 else ?t div 25920 + 6939)"
    by simp
  show "molad_day (molad_of_metonic_cycle (c + 1)) \<le> molad_day (molad_of_metonic_cycle c) + 6940"
    unfolding e by (simp add: molad_of_metonic_cycle_total)
  show "molad_day (molad_of_metonic_cycle c) + 6939 \<le> molad_day (molad_of_metonic_cycle (c + 1))"
    unfolding e by (simp add: molad_of_metonic_cycle_total)
qed

lemma correct_metonic_cycle_spec:
  "correct_metonic_cycle X c0 m0 = (c, m) \<Longrightarrow> m0 = molad_of_metonic_cycle c0 \<Longrightarrow>
     m = molad_of_metonic_cycle c \<and> c0 \<le> c \<and> X - 6630 \<le> molad_day m
     \<and> (c = c0 \<or> molad_day (molad_of_metonic_cycle (c - 1)) < X - 6630)"
proof (induction X c0 m0 arbitrary: c m rule: correct_metonic_cycle.induct)
  case (1 inputDay metonicCycle molad)
  show ?case
  proof (cases "molad_day molad < inputDay - 6940 + 310")
    case True
    with 1(2) have r: "correct_metonic_cycle inputDay (metonicCycle + 1) (add_metonic_cycles 1 molad)
        = (c, m)"
      by (simp add: correct_metonic_cycle.simps [of inputDay metonicCycle molad])
    have n: "add_metonic_cycles 1 molad = molad_of_metonic_cycle (metonicCycle + 1)"
      using 1(3) by (simp add: add_metonic_cycle_total)
    from 1(1) [OF True r n] have ih: "m = molad_of_metonic_cycle c" "metonicCycle + 1 \<le> c"
      "inputDay - 6630 \<le> molad_day m"
      "c = metonicCycle + 1 \<or> molad_day (molad_of_metonic_cycle (c - 1)) < inputDay - 6630"
      by blast+
    from ih(4) True 1(3) have "molad_day (molad_of_metonic_cycle (c - 1)) < inputDay - 6630"
      by auto
    with ih show ?thesis by auto
  next
    case False
    with 1(2) have "c = metonicCycle" "m = molad"
      by (simp_all add: correct_metonic_cycle.simps [of inputDay metonicCycle molad])
    with False 1(3) show ?thesis by simp
  qed
qed

lemma position_of_year:
  assumes "0 \<le> p" and "p < 19"
  shows "(19 * c + p + 1 - 1) mod 19 = (p::int)" and "(19 * c + p + 1 - 1) div 19 = c"
proof -
  have e: "19 * c + p + 1 - 1 = 19 * c + p" by simp
  show "(19 * c + p + 1 - 1) mod 19 = p" by (rule int_mod_pos_eq [OF e assms])
  show "(19 * c + p + 1 - 1) div 19 = c" by (rule int_div_pos_eq [OF e assms])
qed

lemma year_decompose: "y = 19 * ((y - 1) div 19) + (y - 1) mod 19 + (1::int)"
  by simp

lemma year_molad_cycle_start: "year_molad (19 * c + 1) = molad_of_metonic_cycle c"
  using position_of_year [of 0 c]
  by (simp add: year_molad_total molad_of_metonic_cycle_total months_before_def YEAR_OFFSET_def)

lemma molad_day_year: "molad_day (year_molad y) = year_total y div 25920"
  by (simp add: year_molad_total year_total_def)

lemma molad_day_Suc:
  "molad_day (year_molad y) + 354 \<le> molad_day (year_molad (y + 1))"
  "molad_day (year_molad (y + 1)) \<le> molad_day (year_molad y) + 384"
  using from_total_12 [of "year_total y"] from_total_13 [of "year_total y"]
  by (simp_all add: molad_day_year year_total_Suc from_total_def HALAKIM_PER_DAY_def)

lemma molad_day_leap_Suc:
  assumes "is_leap_year y"
  shows "molad_day (year_molad y) + 383 \<le> molad_day (year_molad (y + 1))"
  using from_total_13 [of "year_total y"] assms
  by (simp add: molad_day_year year_total_Suc from_total_def HALAKIM_PER_DAY_def)

lemma molad_day_mono:
  assumes "a \<le> b"
  shows "molad_day (year_molad a) + 354 * (b - a) \<le> molad_day (year_molad b)"
proof -
  have "molad_day (year_molad a) - 354 * a \<le> molad_day (year_molad b) - 354 * b"
  proof (rule int_chain [where f = "\<lambda>y. molad_day (year_molad y) - 354 * y"
        and lo = a and hi = b])
    fix m :: int
    show "molad_day (year_molad m) - 354 * m \<le> molad_day (year_molad (m + 1)) - 354 * (m + 1)"
      using molad_day_Suc(1) [of m] by (simp add: algebra_simps)
  qed (use assms in simp_all)
  then show ?thesis by (simp add: algebra_simps)
qed

lemma rule_1_bounds: "t \<le> rule_1 t" "rule_1 t \<le> t + 1"
  by (simp_all add: rule_1_def)

lemma tishrei1_bounds:
  "molad_day (year_molad y) \<le> tishrei1 y" "tishrei1 y \<le> molad_day (year_molad y) + 2"
proof -
  let ?m = "year_molad y" and ?p = "(y - 1) mod 19"
  let ?t = "if rules_2_3_4 ?p ?m then molad_day ?m + 1 else molad_day ?m"
  have t: "tishrei1 y = rule_1 ?t"
    by (simp only: tishrei1_def get_first_day_of_year_rules)
  have "molad_day ?m \<le> ?t" "?t \<le> molad_day ?m + 1" by simp_all
  with rule_1_bounds [of ?t] show "molad_day ?m \<le> tishrei1 y" "tishrei1 y \<le> molad_day ?m + 2"
    unfolding t by linarith+
qed

lemma tishrei1_year_1: "tishrei1 1 = 1"
  by code_simp

lemma find_metonic_year_spec:
  "find_metonic_year X p0 m0 = (p, m) \<Longrightarrow> 0 \<le> p0 \<Longrightarrow> p0 \<le> 18 \<Longrightarrow>
   m0 = year_molad (19 * c + p0 + 1) \<Longrightarrow>
     m = year_molad (19 * c + p + 1) \<and> p0 \<le> p \<and> p \<le> 18
     \<and> (p < 18 \<longrightarrow> X - 74 < molad_day m)
     \<and> (p0 < p \<longrightarrow> molad_day (year_molad (19 * c + p)) \<le> X - 74)"
proof (induction X p0 m0 arbitrary: p m rule: find_metonic_year.induct)
  case (1 inputDay metonicYear molad)
  note eq = find_metonic_year.simps [of inputDay metonicYear molad]
  show ?case
  proof (cases "metonicYear < 18")
    case False
    with 1(2) have "p = metonicYear" "m = molad" by (simp_all add: eq)
    with False 1(3-5) show ?thesis by simp
  next
    case True
    show ?thesis
    proof (cases "molad_day molad > inputDay - 74")
      case stop: True
      with True 1(2) have "p = metonicYear" "m = molad" by (simp_all add: eq)
      with stop 1(3-5) show ?thesis by simp
    next
      case go: False
      with True 1(2) have r: "find_metonic_year inputDay (metonicYear + 1)
          (add_lunar_cycles (months_in_metonic_year metonicYear) molad) = (p, m)"
        by (simp add: eq)
      have pos: "(19 * c + metonicYear + 1 - 1) mod 19 = metonicYear"
        using 1(3) True by (intro position_of_year) simp_all
      have n: "add_lunar_cycles (months_in_metonic_year metonicYear) molad
               = year_molad (19 * c + (metonicYear + 1) + 1)"
        using year_molad_Suc [of "19 * c + metonicYear + 1"] 1(5)
        by (simp only: pos) (simp add: add.assoc)
      from 1(3) True have b: "0 \<le> metonicYear + 1" "metonicYear + 1 \<le> 18" by simp_all
      from 1(1) [OF True go r b n]
      have ih: "m = year_molad (19 * c + p + 1)" "metonicYear + 1 \<le> p" "p \<le> 18"
        "p < 18 \<longrightarrow> inputDay - 74 < molad_day m"
        "metonicYear + 1 < p \<longrightarrow> molad_day (year_molad (19 * c + p)) \<le> inputDay - 74"
        by blast+
      have "molad_day (year_molad (19 * c + p)) \<le> inputDay - 74"
      proof (cases "metonicYear + 1 < p")
        case True
        with ih(5) show ?thesis by simp
      next
        case False
        with ih(2) have "p = metonicYear + 1" by simp
        with go 1(5) show ?thesis by (simp add: add.assoc)
      qed
      with ih show ?thesis by auto
    qed
  qed
qed

lemma last_year_of_cycle_day:
  "molad_day (molad_of_metonic_cycle c) + 6555 \<le> molad_day (year_molad (19 * c + 18 + 1))"
proof -
  let ?t = "31524 + 179876755 * c"
  have "months_before (19 * c + 18 + 1) = 235 * c + 222"
    using position_of_year [of 18 c] by (simp add: months_before_def YEAR_OFFSET_def)
  then have "year_molad (19 * c + 18 + 1) = from_total (?t + (25920 * 6555 + 20526))"
    by (simp add: year_molad_total distrib_left)
  also have "\<dots> = \<lparr>molad_day = (if 5394 \<le> ?t mod 25920 then ?t div 25920 + (6555 + 1)
                                   else ?t div 25920 + 6555),
      halakim = (if 5394 \<le> ?t mod 25920 then ?t mod 25920 - 5394 else ?t mod 25920 + 20526)\<rparr>"
    by (rule from_total_step) simp_all
  finally show ?thesis
    by (simp add: molad_of_metonic_cycle_total)
qed

lemma find_nearby_tishrei_molad_spec:
  assumes X: "- 310 \<le> X" and f: "find_nearby_tishrei_molad X = (c, p, m)"
  shows "0 \<le> c" and "0 \<le> p" and "p \<le> 18" and "m = year_molad (19 * c + p + 1)"
    and "X \<le> molad_day m + 75"
    and "0 < p \<Longrightarrow> molad_day (year_molad (19 * c + p)) + 74 \<le> X"
    and "p = 0 \<Longrightarrow> molad_day m \<le> X + 311"
proof -
  let ?c0 = "(X + 310) div 6940"
  obtain c1 m1 where l1: "correct_metonic_cycle X ?c0 (molad_of_metonic_cycle ?c0) = (c1, m1)"
    by (cases "correct_metonic_cycle X ?c0 (molad_of_metonic_cycle ?c0)") auto
  obtain p1 m2 where l2: "find_metonic_year X 0 m1 = (p1, m2)"
    by (cases "find_metonic_year X 0 m1") auto
  from f l1 l2 have e: "c = c1" "p = p1" "m = m2"
    by (simp_all add: find_nearby_tishrei_molad_def Let_def)
  from correct_metonic_cycle_spec [OF l1 refl]
  have s1: "m1 = molad_of_metonic_cycle c" "?c0 \<le> c" "X - 6630 \<le> molad_day m1"
    "c = ?c0 \<or> molad_day (molad_of_metonic_cycle (c - 1)) < X - 6630"
    unfolding e by blast+
  have c0: "0 \<le> ?c0" "6940 * ?c0 \<le> X + 310"
    using X by linarith+
  with s1 show "0 \<le> c" by simp
  have start: "m1 = year_molad (19 * c + 0 + 1)"
    using s1(1) by (simp add: year_molad_cycle_start)
  from find_metonic_year_spec [OF l2 _ _ start]
  have s2: "m = year_molad (19 * c + p + 1)" "0 \<le> p" "p \<le> 18"
    "p < 18 \<longrightarrow> X - 74 < molad_day m"
    "0 < p \<longrightarrow> molad_day (year_molad (19 * c + p)) \<le> X - 74"
    unfolding e by (simp; blast)+
  from s2 show "0 \<le> p" "p \<le> 18" "m = year_molad (19 * c + p + 1)" by simp_all
  show "X \<le> molad_day m + 75"
  proof (cases "p < 18")
    case True
    with s2(4) show ?thesis by simp
  next
    case False
    with s2 have "p = 18" by simp
    with s2(1) last_year_of_cycle_day [of c] s1(1,3) show ?thesis by simp
  qed
  show "molad_day (year_molad (19 * c + p)) + 74 \<le> X" if "0 < p"
    using that s2(5) by simp
  show "molad_day m \<le> X + 311" if "p = 0"
  proof -
    from that s2(1) s1(1) start have m: "m = molad_of_metonic_cycle c" by simp
    from s1(4) show ?thesis
    proof
      assume "c = ?c0"
      with cycle_day_upper [OF c0(1)] c0(2) m show ?thesis by simp
    next
      assume "molad_day (molad_of_metonic_cycle (c - 1)) < X - 6630"
      with cycle_day_step(1) [of "c - 1"] m show ?thesis by simp
    qed
  qed
qed

lemma molad_day_year_1: "molad_day (year_molad 1) = 1"
  by code_simp

lemma find_previous_year:
  assumes y: "2 \<le> y"
    and f: "find_nearby_tishrei_molad (molad_day (year_molad y) - 365) = (c, p, m)"
  shows "19 * c + p + 1 = y - 1"
proof -
  let ?X = "molad_day (year_molad y) - 365"
  let ?y = "19 * c + p + 1"
  have "molad_day (year_molad 1) + 354 * (y - 1) \<le> molad_day (year_molad y)"
    using y by (intro molad_day_mono) simp
  with y have "- 310 \<le> ?X" by (simp add: molad_day_year_1)
  note s = find_nearby_tishrei_molad_spec [OF this f]
  have lower: "y - 1 \<le> ?y"
  proof (rule ccontr)
    assume "\<not> y - 1 \<le> ?y"
    then have "?y \<le> y" "2 \<le> y - ?y" by simp_all
    with molad_day_mono [of ?y y] have "molad_day (year_molad ?y) + 708 \<le> molad_day (year_molad y)"
      by simp
    with s(4,5) show False by simp
  qed
  have upper: "?y \<le> y - 1"
  proof (rule ccontr)
    assume a: "\<not> ?y \<le> y - 1"
    show False
    proof (cases "0 < p")
      case True
      from a have "y - 1 \<le> 19 * c + p" by simp
      from molad_day_mono [OF this] a
      have "molad_day (year_molad (y - 1)) \<le> molad_day (year_molad (19 * c + p))"
        by simp
      with s(6) [OF True] molad_day_Suc(2) [of "y - 1"] show False by simp
    next
      case False
      with s(2) have "p = 0" by simp
      from a have "y \<le> ?y" by simp
      from molad_day_mono [OF this] a
      have "molad_day (year_molad y) \<le> molad_day (year_molad ?y)" by simp
      with s(7) [OF \<open>p = 0\<close>] s(4) show False by simp
    qed
  qed
  from lower upper show ?thesis by simp
qed

lemma JewishDate_init_date_of_day:
  assumes "1 \<le> y" and "1 \<le> m" and "m \<le> 13" and "1 \<le> d" and "d \<le> 30"
    and "d \<le> days_in_month y m" and "month_start y m + d = X"
  shows "\<exists>dt. JewishDate_init y m d = Inr dt \<and> date_of_day dt X"
  using assms by (simp add: JewishDate_init_def date_of_day_def)

lemma date_of_day_to_sdn:
  assumes "date_of_day d X"
  shows "to_sdn d = Inr (X + JEWISH_SDN_OFFSET)"
  using assms to_sdn_month_start [of d] by (simp add: date_of_day_def)

section \<open>The date of a serial day number\<close>

lemma tishrei_good:
  assumes "1 \<le> y" and "tishrei1 y \<le> X" and "X < tishrei1 y + 30"
  shows "\<exists>dt. JewishDate_init y TISHREI (X - tishrei1 y + 1) = Inr dt \<and> date_of_day dt X"
  using assms
  by (intro JewishDate_init_date_of_day)
    (simp_all add: month_start_def days_in_month_def month_defs)

lemma cheshvan_good:
  assumes "1 \<le> y" and "tishrei1 y + 30 \<le> X" and "X < tishrei1 y + 59"
  shows "\<exists>dt. JewishDate_init y CHESHVAN (X - tishrei1 y - 29) = Inr dt \<and> date_of_day dt X"
  using assms
  by (intro JewishDate_init_date_of_day)
    (simp_all add: month_start_def days_in_month_def month_defs)

lemma tevet_start: "month_start y 4 = tishrei1 (y + 1) - (if is_leap_year y then 296 else 266)"
  by (simp add: month_start_def)

lemma cheshvan_or_kislev_good:
  assumes "1 \<le> y" and "tishrei1 y + 59 \<le> X" and "X \<le> month_start y 4"
  shows "\<exists>dt. cheshvan_or_kislev y X (tishrei1 y) (tishrei1 (y + 1)) = Inr dt
              \<and> date_of_day dt X"
proof -
  let ?L = "year_length y"
  have L: "tishrei1 (y + 1) - tishrei1 y = ?L" by (simp add: year_length_def)
  have top: "X \<le> tishrei1 y + ?L - (if is_leap_year y then 296 else 266)"
    using assms(3) by (simp add: tevet_start tishrei1_Suc)
  show ?thesis
  proof (cases "?L \<in> {355, 385}")
    case long: True
    show ?thesis
    proof (cases "X = tishrei1 y + 59")
      case True
      with long have "cheshvan_or_kislev y X (tishrei1 y) (tishrei1 (y + 1))
          = JewishDate_init y CHESHVAN 30"
        by (simp add: cheshvan_or_kislev_def Let_def L)
      moreover have "\<exists>dt. JewishDate_init y CHESHVAN 30 = Inr dt \<and> date_of_day dt X"
        using assms(1) True long
        by (intro JewishDate_init_date_of_day)
          (simp_all add: month_start_def days_in_month_def month_defs)
      ultimately show ?thesis by simp
    next
      case False
      with assms(2) have x: "tishrei1 y + 60 \<le> X" by simp
      with long have "cheshvan_or_kislev y X (tishrei1 y) (tishrei1 (y + 1))
          = JewishDate_init y KISLEV (X - tishrei1 y - 59)"
        by (simp add: cheshvan_or_kislev_def Let_def L)
      moreover have "\<exists>dt. JewishDate_init y KISLEV (X - tishrei1 y - 59) = Inr dt
                         \<and> date_of_day dt X"
        using assms(1) x long top year_length_cases [of y]
        by (intro JewishDate_init_date_of_day)
          (auto simp add: month_start_def days_in_month_def month_defs)
      ultimately show ?thesis by simp
    qed
  next
    case short: False
    with assms(2) have "cheshvan_or_kislev y X (tishrei1 y) (tishrei1 (y + 1))
        = JewishDate_init y KISLEV (X - tishrei1 y - 58)"
      by (simp add: cheshvan_or_kislev_def Let_def L)
    moreover have "\<exists>dt. JewishDate_init y KISLEV (X - tishrei1 y - 58) = Inr dt
                       \<and> date_of_day dt X"
      using assms(1,2) short top year_length_cases [of y]
      by (intro JewishDate_init_date_of_day)
        (auto simp add: month_start_def days_in_month_def month_defs)
    ultimately show ?thesis by simp
  qed
qed

lemma from_sdn_unfold:
  assumes "JEWISH_SDN_OFFSET < sdn"
    and "find_nearby_tishrei_molad (sdn - JEWISH_SDN_OFFSET) = (c, p, m)"
    and "get_first_day_of_year p m = T" and "X = sdn - JEWISH_SDN_OFFSET"
    and "Y = c * 19 + p"
  shows "from_sdn sdn =
    (if T \<le> X then
       (if X < T + 59 then
          (if X < T + 30 then JewishDate_init (Y + 1) TISHREI (X - T + 1)
           else JewishDate_init (Y + 1) CHESHVAN (X - T - 29))
        else cheshvan_or_kislev (Y + 1) X T
               (get_first_day_of_year ((p + 1) mod 19)
                  (add_lunar_cycles (months_in_metonic_year p) m)))
     else
       (if T - 177 \<le> X then
          (case last_six_months X T
                  [(ELUL, 30), (AV, 60), (TAMUZ, 89), (SIVAN, 119), (IYAR, 148), (NISAN, 178)] of
             None \<Rightarrow> Inl NameError
           | Some (mo, d) \<Rightarrow> JewishDate_init Y mo d)
        else if 0 < X - T + 207 then JewishDate_init Y ADAR_II (X - T + 207)
        else if is_leap_year Y \<and> 0 < X - T + 237 then JewishDate_init Y ADAR_I (X - T + 237)
        else if 0 < X - T + (if is_leap_year Y then 267 else 237)
          then JewishDate_init Y SHEVAT (X - T + (if is_leap_year Y then 267 else 237))
        else if 0 < X - T + (if is_leap_year Y then 296 else 266)
          then JewishDate_init Y TEVET (X - T + (if is_leap_year Y then 296 else 266))
        else (case find_nearby_tishrei_molad (molad_day m - 365) of
                (c', p', m') \<Rightarrow> cheshvan_or_kislev Y X (get_first_day_of_year p' m') T)))"
  using assms by (simp add: from_sdn_def Let_def; simp add: algebra_simps)

lemma from_sdn_date_of_day:
  assumes sdn: "JEWISH_SDN_OFFSET < sdn"
  shows "\<exists>dt. from_sdn sdn = Inr dt \<and> date_of_day dt (sdn - JEWISH_SDN_OFFSET)"
proof -
  define X where "X = sdn - JEWISH_SDN_OFFSET"
  obtain c p m where f: "find_nearby_tishrei_molad (sdn - JEWISH_SDN_OFFSET) = (c, p, m)"
    by (cases "find_nearby_tishrei_molad (sdn - JEWISH_SDN_OFFSET)") auto
  define Y where "Y = c * 19 + p"
  let ?T = "tishrei1 (Y + 1)"
  from sdn have X1: "1 \<le> X" by (simp add: X_def)
  then have "- 310 \<le> sdn - JEWISH_SDN_OFFSET" by (simp add: X_def)
  note s = find_nearby_tishrei_molad_spec [OF this f, folded X_def]
  have y: "19 * c + p + 1 = Y + 1" by (simp add: Y_def)
  have pos: "(Y + 1 - 1) mod 19 = p"
    using position_of_year(1) [of p c] s(2,3) by (simp add: Y_def mult.commute)
  have m: "m = year_molad (Y + 1)" using s(4) by (simp only: y)
  have T: "get_first_day_of_year p m = ?T"
    by (simp only: tishrei1_def pos m)
  have N: "get_first_day_of_year ((p + 1) mod 19)
             (add_lunar_cycles (months_in_metonic_year p) m) = tishrei1 (Y + 1 + 1)"
    using next_tishrei1 [of "Y + 1"] by (simp only: pos m)
  note u = from_sdn_unfold [OF sdn f T X_def Y_def, unfolded N]
  have Y0: "0 \<le> Y" using s(1,2) by (simp add: Y_def)
  have top: "X \<le> ?T + 75"
    using s(5) tishrei1_bounds(1) [of "Y + 1"] by (simp add: m)
  have "\<exists>dt. from_sdn sdn = Inr dt \<and> date_of_day dt X"
  proof (cases "?T \<le> X")
    case start: True
    have Y1: "1 \<le> Y + 1" using Y0 by simp
    consider "X < ?T + 30" | "?T + 30 \<le> X" "X < ?T + 59" | "?T + 59 \<le> X" by linarith
    then show ?thesis
    proof cases
      case 1
      with start u have "from_sdn sdn = JewishDate_init (Y + 1) TISHREI (X - ?T + 1)" by simp
      with tishrei_good [OF Y1 start 1] show ?thesis by simp
    next
      case 2
      with start u have "from_sdn sdn = JewishDate_init (Y + 1) CHESHVAN (X - ?T - 29)" by simp
      with cheshvan_good [OF Y1 2] show ?thesis by simp
    next
      case 3
      with start u have "from_sdn sdn
          = cheshvan_or_kislev (Y + 1) X ?T (tishrei1 (Y + 1 + 1))" by simp
      moreover have "month_start (Y + 1) 4
          = ?T + year_length (Y + 1) - (if is_leap_year (Y + 1) then 296 else 266)"
        by (simp only: tevet_start tishrei1_Suc)
      then have "X \<le> month_start (Y + 1) 4"
        using top year_length_cases [of "Y + 1"] by auto
      ultimately show ?thesis
        using cheshvan_or_kislev_good [OF Y1 3] by simp
    qed
  next
    case late: False
    have Y1: "1 \<le> Y"
    proof (rule ccontr)
      assume "\<not> 1 \<le> Y"
      with Y0 have "Y = 0" by simp
      with late X1 show False by (simp add: tishrei1_year_1)
    qed
    have low: "tishrei1 Y + 70 \<le> X"
    proof (cases "0 < p")
      case True
      from s(6) [OF True] have "molad_day (year_molad Y) + 74 \<le> X"
        by (simp add: Y_def mult.commute)
      with tishrei1_bounds(2) [of Y] show ?thesis by simp
    next
      case False
      with s(2) have p0: "p = 0" by simp
      with Y1 have c: "1 \<le> c" by (simp add: Y_def)
      have "Y - 1 = 19 * (c - 1) + 18" using p0 by (simp add: Y_def)
      then have "(Y - 1) mod 19 = 18" by (rule int_mod_pos_eq) simp_all
      then have "is_leap_year Y"
        by (simp add: is_leap_year_def metonic_year_def LEAP_YEARS_def)
      then have "tishrei1 Y + 383 \<le> ?T"
        using year_length_cases [of Y] by (auto simp add: tishrei1_Suc)
      moreover from s(7) [OF p0] tishrei1_bounds(2) [of "Y + 1"] have "?T \<le> X + 313"
        by (simp add: m)
      ultimately show ?thesis by simp
    qed
    have L: "?T = tishrei1 Y + year_length Y" by (simp add: tishrei1_Suc)
    consider (elul) "?T - 30 < X"
      | (av) "X \<le> ?T - 30" "?T - 60 < X"
      | (tamuz) "X \<le> ?T - 60" "?T - 89 < X"
      | (sivan) "X \<le> ?T - 89" "?T - 119 < X"
      | (iyar) "X \<le> ?T - 119" "?T - 148 < X"
      | (nisan) "X \<le> ?T - 148" "?T - 178 < X"
      | (adar_ii) "X \<le> ?T - 178" "?T - 207 < X"
      | (adar_i) "is_leap_year Y" "X \<le> ?T - 207" "?T - 237 < X"
      | (shevat_leap) "is_leap_year Y" "X \<le> ?T - 237" "?T - 267 < X"
      | (tevet_leap) "is_leap_year Y" "X \<le> ?T - 267" "?T - 296 < X"
      | (shevat) "\<not> is_leap_year Y" "X \<le> ?T - 207" "?T - 237 < X"
      | (tevet) "\<not> is_leap_year Y" "X \<le> ?T - 237" "?T - 266 < X"
      | (early) "X \<le> ?T - (if is_leap_year Y then 296 else 266)"
      by (cases "is_leap_year Y") (simp_all; linarith)+
    then show ?thesis
    proof cases
      case elul
      have "from_sdn sdn = JewishDate_init Y ELUL (X - ?T + 30)"
        using u late elul by simp
      moreover have "\<exists>dt. JewishDate_init Y ELUL (X - ?T + 30) = Inr dt \<and> date_of_day dt X"
        using Y1 late elul 
        by (intro JewishDate_init_date_of_day)
          (simp_all add: month_start_def days_in_month_def month_defs)
      ultimately show ?thesis by simp
    next
      case av
      have "from_sdn sdn = JewishDate_init Y AV (X - ?T + 60)"
        using u late av by simp
      moreover have "\<exists>dt. JewishDate_init Y AV (X - ?T + 60) = Inr dt \<and> date_of_day dt X"
        using Y1 late av 
        by (intro JewishDate_init_date_of_day)
          (simp_all add: month_start_def days_in_month_def month_defs)
      ultimately show ?thesis by simp
    next
      case tamuz
      have "from_sdn sdn = JewishDate_init Y TAMUZ (X - ?T + 89)"
        using u late tamuz by simp
      moreover have "\<exists>dt. JewishDate_init Y TAMUZ (X - ?T + 89) = Inr dt \<and> date_of_day dt X"
        using Y1 late tamuz 
        by (intro JewishDate_init_date_of_day)
          (simp_all add: month_start_def days_in_month_def month_defs)
      ultimately show ?thesis by simp
    next
      case sivan
      have "from_sdn sdn = JewishDate_init Y SIVAN (X - ?T + 119)"
        using u late sivan by simp
      moreover have "\<exists>dt. JewishDate_init Y SIVAN (X - ?T + 119) = Inr dt \<and> date_of_day dt X"
        using Y1 late sivan 
        by (intro JewishDate_init_date_of_day)
          (simp_all add: month_start_def days_in_month_def month_defs)
      ultimately show ?thesis by simp
    next
      case iyar
      have "from_sdn sdn = JewishDate_init Y IYAR (X - ?T + 148)"
        using u late iyar by simp
      moreover have "\<exists>dt. JewishDate_init Y IYAR (X - ?T + 148) = Inr dt \<and> date_of_day dt X"
        using Y1 late iyar 
        by (intro JewishDate_init_date_of_day)
          (simp_all add: month_start_def days_in_month_def month_defs)
      ultimately show ?thesis by simp
    next
      case nisan
      have "from_sdn sdn = JewishDate_init Y NISAN (X - ?T + 178)"
        using u late nisan by simp
      moreover have "\<exists>dt. JewishDate_init Y NISAN (X - ?T + 178) = Inr dt \<and> date_of_day dt X"
        using Y1 late nisan 
        by (intro JewishDate_init_date_of_day)
          (simp_all add: month_start_def days_in_month_def month_defs)
      ultimately show ?thesis by simp
    next
      case adar_ii
      have "from_sdn sdn = JewishDate_init Y ADAR_II (X - ?T + 207)"
        using u late adar_ii by simp
      moreover have "\<exists>dt. JewishDate_init Y ADAR_II (X - ?T + 207) = Inr dt \<and> date_of_day dt X"
        using Y1 late adar_ii 
        by (intro JewishDate_init_date_of_day)
          (simp_all add: month_start_def days_in_month_def month_defs)
      ultimately show ?thesis by simp
    next
      case adar_i
      have "from_sdn sdn = JewishDate_init Y ADAR_I (X - ?T + 237)"
        using u late adar_i by simp
      moreover have "\<exists>dt. JewishDate_init Y ADAR_I (X - ?T + 237) = Inr dt \<and> date_of_day dt X"
        using Y1 late adar_i 
        by (intro JewishDate_init_date_of_day)
          (simp_all add: month_start_def days_in_month_def month_defs)
      ultimately show ?thesis by simp
    next
      case shevat_leap
      have "from_sdn sdn = JewishDate_init Y SHEVAT (X - ?T + 267)"
        using u late shevat_leap by simp
      moreover have "\<exists>dt. JewishDate_init Y SHEVAT (X - ?T + 267) = Inr dt \<and> date_of_day dt X"
        using Y1 late shevat_leap 
        by (intro JewishDate_init_date_of_day)
          (simp_all add: month_start_def days_in_month_def month_defs)
      ultimately show ?thesis by simp
    next
      case tevet_leap
      have "from_sdn sdn = JewishDate_init Y TEVET (X - ?T + 296)"
        using u late tevet_leap by simp
      moreover have "\<exists>dt. JewishDate_init Y TEVET (X - ?T + 296) = Inr dt \<and> date_of_day dt X"
        using Y1 late tevet_leap 
        by (intro JewishDate_init_date_of_day)
          (simp_all add: month_start_def days_in_month_def month_defs)
      ultimately show ?thesis by simp
    next
      case shevat
      have "from_sdn sdn = JewishDate_init Y SHEVAT (X - ?T + 237)"
        using u late shevat by simp
      moreover have "\<exists>dt. JewishDate_init Y SHEVAT (X - ?T + 237) = Inr dt \<and> date_of_day dt X"
        using Y1 late shevat 
        by (intro JewishDate_init_date_of_day)
          (simp_all add: month_start_def days_in_month_def month_defs)
      ultimately show ?thesis by simp
    next
      case tevet
      have "from_sdn sdn = JewishDate_init Y TEVET (X - ?T + 266)"
        using u late tevet by simp
      moreover have "\<exists>dt. JewishDate_init Y TEVET (X - ?T + 266) = Inr dt \<and> date_of_day dt X"
        using Y1 late tevet 
        by (intro JewishDate_init_date_of_day)
          (simp_all add: month_start_def days_in_month_def month_defs)
      ultimately show ?thesis by simp
    next
      case early
      obtain c' p' m' where f': "find_nearby_tishrei_molad (molad_day m - 365) = (c', p', m')"
        by (cases "find_nearby_tishrei_molad (molad_day m - 365)") auto
      from Y1 have "2 \<le> Y + 1" by simp
      from find_previous_year [OF this f' [unfolded m]] have y': "19 * c' + p' + 1 = Y" by simp
      have "molad_day (year_molad 1) + 354 * (Y + 1 - 1) \<le> molad_day (year_molad (Y + 1))"
        using Y1 by (intro molad_day_mono) simp
      with Y1 have "- 310 \<le> molad_day m - 365" by (simp add: molad_day_year_1 m)
      note s' = find_nearby_tishrei_molad_spec [OF this f']
      have pos': "(Y - 1) mod 19 = p'"
        using position_of_year(1) [of p' c'] s'(2,3) by (simp only: y')
      have T': "get_first_day_of_year p' m' = tishrei1 Y"
        using s'(4) by (simp only: tishrei1_def pos' y')
      have "from_sdn sdn = cheshvan_or_kislev Y X (tishrei1 Y) ?T"
        using u late early f' T' by (cases "is_leap_year Y") simp_all
      moreover have "tishrei1 Y + 59 \<le> X" using low by simp
      moreover have "X \<le> month_start Y 4" using early by (simp add: tevet_start)
      ultimately show ?thesis
        using cheshvan_or_kislev_good [OF Y1, of X] by simp
    qed
  qed
  then show ?thesis by (simp add: X_def)
qed

lemma day_number_less:
  assumes a: "1 \<le> m1" "m1 \<le> 13" "1 \<le> d1" "d1 \<le> days_in_month y1 m1"
    and b: "1 \<le> m2" "m2 \<le> 13" "1 \<le> d2" "d2 \<le> days_in_month y2 m2"
    and less: "y1 < y2 \<or> (y1 = y2 \<and> (m1 < m2 \<or> (m1 = m2 \<and> d1 < d2)))"
  shows "month_start y1 m1 + d1 < month_start y2 m2 + d2"
proof -
  from less consider "y1 < y2" | "y1 = y2" "m1 < m2" | "y1 = y2" "m1 = m2" "d1 < d2"
    by auto
  then show ?thesis
  proof cases
    case 1
    have "month_start y1 m1 + d1 < tishrei1 (y1 + 1)"
      using a by (intro day_number_bounds) simp_all
    also have "\<dots> \<le> tishrei1 y2"
      using 1 by (intro tishrei1_mono) simp
    also have "\<dots> \<le> month_start y2 m2 + d2"
      using b by (intro day_number_bounds) simp_all
    finally show ?thesis .
  next
    case 2
    have "month_start y1 m1 + d1 \<le> month_start y1 m2"
      using 2 a b by (intro month_end_le_next_start) simp_all
    with 2 b show ?thesis by simp
  next
    case 3
    then show ?thesis by simp
  qed
qed

lemma date_of_day_unique:
  assumes a: "date_of_day a X" and b: "date_of_day b X"
  shows "a = b"
proof -
  let ?less = "\<lambda>a b. year a < year b
      \<or> (year a = year b \<and> (month a < month b \<or> (month a = month b \<and> day a < day b)))"
  have "\<not> ?less a b"
  proof
    assume "?less a b"
    with a b have "month_start (year a) (month a) + day a
        < month_start (year b) (month b) + day b"
      by (intro day_number_less) (simp_all add: date_of_day_def)
    with a b show False by (simp add: date_of_day_def)
  qed
  moreover have "\<not> ?less b a"
  proof
    assume "?less b a"
    with a b have "month_start (year b) (month b) + day b
        < month_start (year a) (month a) + day a"
      by (intro day_number_less) (simp_all add: date_of_day_def)
    with a b show False by (simp add: date_of_day_def)
  qed
  ultimately have "year a = year b" "month a = month b" "day a = day b"
    by linarith+
  moreover from this a b have "isLeapYear a = isLeapYear b"
    by (simp add: date_of_day_def)
  ultimately show ?thesis by simp
qed

text \<open>Claim C10. For every serial day number above the epoch offset, \<open>from_sdn\<close> returns
  a date and no error. The model of \<open>from_sdn\<close> is a total function whose two loops are
  defined with their termination proofs, so that it returns is what the equation says.
  The date has a year from 1 on, a month from 1 to 13 and a day from 1 to 30, so that the
  constructor called at the end accepts it; moreover its day is within the length of its
  month, and \<open>to_sdn\<close> takes it back to the serial day number.\<close>

theorem from_sdn_total:
  assumes "JEWISH_SDN_OFFSET < sdn"
  shows "\<exists>dt. from_sdn sdn = Inr dt
     \<and> JewishDate_init (year dt) (month dt) (day dt) = Inr dt
     \<and> 1 \<le> year dt \<and> 1 \<le> month dt \<and> month dt \<le> 13 \<and> 1 \<le> day dt \<and> day dt \<le> 30
     \<and> day dt \<le> days_in_month (year dt) (month dt)
     \<and> to_sdn dt = Inr sdn"
proof -
  from from_sdn_date_of_day [OF assms] obtain dt
    where f: "from_sdn sdn = Inr dt" and d: "date_of_day dt (sdn - JEWISH_SDN_OFFSET)"
    by blast
  from d have "JewishDate_init (year dt) (month dt) (day dt) = Inr dt"
    by (simp add: date_of_day_def JewishDate_init_def)
  moreover from date_of_day_to_sdn [OF d] have "to_sdn dt = Inr sdn" by simp
  ultimately show ?thesis
    using f d by (simp add: date_of_day_def)
qed

theorem from_sdn_total_witness:
  "JEWISH_SDN_OFFSET < 2456541
   \<and> (\<exists>dt. from_sdn 2456541 = Inr dt
     \<and> JewishDate_init (year dt) (month dt) (day dt) = Inr dt
     \<and> 1 \<le> year dt \<and> 1 \<le> month dt \<and> month dt \<le> 13 \<and> 1 \<le> day dt \<and> day dt \<le> 30
     \<and> day dt \<le> days_in_month (year dt) (month dt)
     \<and> to_sdn dt = Inr 2456541)"
proof -
  have h: "JEWISH_SDN_OFFSET < 2456541" by (simp add: JEWISH_SDN_OFFSET_def)
  from from_sdn_total [OF h] h show ?thesis by simp
qed

text \<open>Claim C1. For every year, month and day that the constructor accepts, with the day
  no greater than the length of that month in that year, \<open>to_sdn\<close> returns a serial day
  number and \<open>from_sdn\<close> takes that number back to the same date, with the same year,
  month, day and leap flag.\<close>

theorem round_trip:
  assumes i: "JewishDate_init y m d = Inr dt" and l: "d \<le> days_in_month y m"
  shows "\<exists>sdn. to_sdn dt = Inr sdn \<and> from_sdn sdn = Inr dt"
proof -
  note f = JewishDate_init_Inr [OF i]
  let ?X = "month_start y m + d"
  have dt: "date_of_day dt ?X"
    using f l by (simp add: date_of_day_def)
  have s: "to_sdn dt = Inr (?X + JEWISH_SDN_OFFSET)"
    by (rule date_of_day_to_sdn [OF dt])
  have "tishrei1 1 \<le> tishrei1 y"
    using f by (intro tishrei1_mono) simp
  moreover have "tishrei1 y \<le> ?X"
    using f l by (intro day_number_bounds) simp_all
  ultimately have "JEWISH_SDN_OFFSET < ?X + JEWISH_SDN_OFFSET"
    by (simp add: tishrei1_year_1)
  from from_sdn_date_of_day [OF this] obtain dt'
    where r: "from_sdn (?X + JEWISH_SDN_OFFSET) = Inr dt'" and dt': "date_of_day dt' ?X"
    by auto
  from date_of_day_unique [OF dt' dt] r s show ?thesis by simp
qed

theorem round_trip_witness:
  "JewishDate_init 5774 13 29 = Inr \<lparr>year = 5774, month = 13, day = 29, isLeapYear = True\<rparr>
   \<and> 29 \<le> days_in_month 5774 13
   \<and> (\<exists>sdn. to_sdn \<lparr>year = 5774, month = 13, day = 29, isLeapYear = True\<rparr> = Inr sdn
        \<and> from_sdn sdn = Inr \<lparr>year = 5774, month = 13, day = 29, isLeapYear = True\<rparr>)"
proof -
  have i: "JewishDate_init 5774 13 29
      = Inr \<lparr>year = 5774, month = 13, day = 29, isLeapYear = True\<rparr>"
    by code_simp
  have l: "29 \<le> days_in_month 5774 13"
    by (simp add: days_in_month_def month_defs)
  from round_trip [OF i l] i l show ?thesis by simp
qed

end
